theory Spec2Isabelle
  imports Complex_Main
begin

section \<open>Banner renderer (scripts/generate-banner-v2.py)\<close>

text \<open>
  The script draws a 1200 x 630 banner with the Pillow imaging library: a background, a
  per-column gradient overlay, eight decorative icons, a logo (or a text fallback) and three
  lines of text, flattened to RGB and written as a JPEG. (The older script
  generate-banner.py draws three flat bands instead of the per-column gradient and has no
  icons; the properties below are about the second script.)

  Python's \<open>float\<close> is the IEEE 754 binary64 format.  A finite double is modelled by the
  rational number it denotes, and every arithmetic operation of the script on floats by the
  exact operation followed by rounding to the nearest double, ties to even (\<open>fl\<close>).
  An int operand of a float operation is taken at its exact value, as Python does for
  magnitudes below \<open>2 ^ 53\<close>. The rounding \<open>fl\<close> has no largest exponent: an operation
  overflows when its rounded result has magnitude \<open>2 ^ 1024\<close> or more (\<open>overflows\<close>), and
  Python then yields an infinity, or raises \<open>OverflowError\<close> where it converts to or from
  an int.
\<close>

subsection \<open>Doubles: rounding to nearest, ties to even\<close>

definition pow2 :: "int \<Rightarrow> rat" where
  "pow2 k = (if 0 \<le> k then 2 ^ nat k else 1 / 2 ^ nat (- k))"

text \<open>The binary exponent of a positive rational: \<open>pow2 (ilog2 x) \<le> x < pow2 (ilog2 x + 1)\<close>.\<close>

function ilog2 :: "rat \<Rightarrow> int" where
  "ilog2 x = (if x \<le> 0 then 0
              else if x < 1 then ilog2 (x * 2) - 1
              else if 2 \<le> x then ilog2 (x / 2) + 1
              else 0)"
  by pat_completeness auto
termination
proof (relation "measure (\<lambda>x. if x < 1 then nat \<lceil>1 / x\<rceil> + 1 else nat \<lfloor>x\<rfloor>)", goal_cases)
  case 1
  then show ?case by simp
next
  case (2 x)
  then have x: "0 < x" "x < 1" by simp_all
  have c2: "2 \<le> \<lceil>1 / x\<rceil>"
  proof -
    have "1 < 1 / x" using x by simp
    then have "1 < \<lceil>1 / x\<rceil>" by (simp add: less_ceiling_iff)
    then show ?thesis by simp
  qed
  show ?case
  proof (cases "x * 2 < 1")
    case True
    have "1 / (x * 2) = (1 / x) / 2" by simp
    also have "\<dots> \<le> of_int \<lceil>1 / x\<rceil> / 2"
      by (rule divide_right_mono) (simp_all add: le_of_int_ceiling)
    also have "\<dots> \<le> of_int (\<lceil>1 / x\<rceil> - 1)"
      using c2 by (simp add: field_simps) 
    finally have "\<lceil>1 / (x * 2)\<rceil> \<le> \<lceil>1 / x\<rceil> - 1"
      by (rule ceiling_le)
    with c2 have "nat \<lceil>1 / (x * 2)\<rceil> + 1 < nat \<lceil>1 / x\<rceil> + 1" by linarith
    with True x show ?thesis by simp
  next
    case False
    have "\<lfloor>x * 2\<rfloor> < 2" using x by (simp add: floor_less_iff)
    with c2 have "nat \<lfloor>x * 2\<rfloor> < nat \<lceil>1 / x\<rceil> + 1" by linarith
    with False x show ?thesis by simp
  qed
next
  case (3 x)
  then have x: "2 \<le> x" by simp
  have f2: "2 \<le> \<lfloor>x\<rfloor>" using x by (simp add: le_floor_iff)
  have "x / 2 < of_int \<lfloor>x\<rfloor>"
  proof -
    have "x < of_int \<lfloor>x\<rfloor> + 1" by linarith
    moreover have "(2::rat) \<le> of_int \<lfloor>x\<rfloor>" using f2 by (metis of_int_le_iff of_int_numeral)
    ultimately show ?thesis by (simp add: field_simps)
  qed
  then have "\<lfloor>x / 2\<rfloor> < \<lfloor>x\<rfloor>" by (simp add: floor_less_iff)
  with f2 have "nat \<lfloor>x / 2\<rfloor> < nat \<lfloor>x\<rfloor>" by linarith
  with x show ?case by simp
qed

declare ilog2.simps [simp del]

text \<open>Rounding a rational to the nearest integer, a tie going to the even neighbour.\<close>

definition rne :: "rat \<Rightarrow> int" where
  "rne y = (if y - of_int \<lfloor>y\<rfloor> < 1 / 2 then \<lfloor>y\<rfloor>
            else if 1 / 2 < y - of_int \<lfloor>y\<rfloor> then \<lfloor>y\<rfloor> + 1
            else if even \<lfloor>y\<rfloor> then \<lfloor>y\<rfloor> else \<lfloor>y\<rfloor> + 1)"

text \<open>Rounding to a multiple of \<open>pow2 q\<close>, the unit in the last place.\<close>

definition round_at :: "int \<Rightarrow> rat \<Rightarrow> rat" where
  "round_at q x = of_int (rne (x / pow2 q)) * pow2 q"

text \<open>
  The nearest double: 53 significant bits, so the last place of \<open>x\<close> is
  \<open>ilog2 \<bar>x\<bar> - 52\<close>, and never below \<open>- 1074\<close> (the subnormal spacing).
\<close>

definition fl :: "rat \<Rightarrow> rat" where
  "fl x = (if x = 0 then 0 else round_at (max (ilog2 \<bar>x\<bar> - 52) (- 1074)) x)"

text \<open>Python's \<open>+\<close>, \<open>-\<close>, \<open>*\<close> and \<open>/\<close> when an operand is a float (or, for \<open>/\<close>, both are ints).\<close>

definition fadd :: "rat \<Rightarrow> rat \<Rightarrow> rat" where
  "fadd a b = fl (a + b)"

definition fsub :: "rat \<Rightarrow> rat \<Rightarrow> rat" where
  "fsub a b = fl (a - b)"

definition fmul :: "rat \<Rightarrow> rat \<Rightarrow> rat" where
  "fmul a b = fl (a * b)"

definition fdiv :: "rat \<Rightarrow> rat \<Rightarrow> rat" where
  "fdiv a b = fl (a / b)"

text \<open>Python's \<open>int(x)\<close> on a float: truncation toward zero.\<close>

definition py_int :: "rat \<Rightarrow> int" where
  "py_int x = (if 0 \<le> x then \<lfloor>x\<rfloor> else \<lceil>x\<rceil>)"

text \<open>
  The largest double is \<open>2 ^ 1024 - 2 ^ 971\<close>. A result that \<open>fl\<close> rounds to a magnitude of
  \<open>2 ^ 1024\<close> or more is beyond it: the operation overflows. \<open>int(v)\<close> of such a product,
  the division \<open>n / m\<close> of two ints with such a quotient, and the conversion of such an int
  to a float raise \<open>OverflowError\<close>.
\<close>

definition overflows :: "rat \<Rightarrow> bool" where
  "overflows v \<longleftrightarrow> 2 ^ 1024 \<le> \<bar>v\<bar>"

subsection \<open>Draw calls\<close>

text \<open>
  The drawing primitives of Pillow's \<open>ImageDraw\<close> that the script calls, with the arguments
  it passes: \<open>rectangle(xy, outline, width)\<close>, \<open>line(xy, fill, width, joint)\<close> and
  \<open>text(xy, text, font, fill)\<close>. Coordinates are the floats the script computes.
\<close>

type_synonym point = "rat \<times> rat"
type_synonym rgb = "int \<times> int \<times> int"
type_synonym rgba = "int \<times> int \<times> int \<times> int"

datatype joint = NoJoint | Curve

datatype font = TrueType string int | DefaultFont

datatype draw_call =
    Rectangle point point rgba int
  | Line "point list" rgba int joint
  | Text point string font rgba

subsection \<open>Icons (draw\_icon, lines 11 to 63)\<close>

text \<open>The coordinate \<open>x + k * s\<close> of the 64-unit grid: a float product, then a float sum.\<close>

definition offs :: "int \<Rightarrow> int \<Rightarrow> rat \<Rightarrow> rat" where
  "offs x k s = fadd (of_int x) (fmul (of_int k) s)"

text \<open>The stroke widths \<open>max(1, int(2 * s))\<close> and, for the resistor bands, \<open>max(1, int(s))\<close>.\<close>

definition stroke :: "rat \<Rightarrow> int" where
  "stroke s = max 1 (py_int (fmul 2 s))"

definition band_stroke :: "rat \<Rightarrow> int" where
  "band_stroke s = max 1 (py_int s)"

text \<open>
  The calls \<open>draw_icon\<close> makes on its draw target, in order. \<open>x\<close>, \<open>y\<close> and \<open>size\<close> are
  ints, as in \<open>icon_positions\<close>; \<open>opacity\<close> is a float. An \<open>icon_type\<close> that matches no
  branch of the \<open>if\<close>/\<open>elif\<close> chain makes no call. The list \<open>[16, 20, .., 48]\<close> is
  \<open>range(16, 49, 4)\<close>.
\<close>

definition draw_icon_calls ::
    "int \<Rightarrow> int \<Rightarrow> int \<Rightarrow> string \<Rightarrow> rgb \<Rightarrow> rat \<Rightarrow> draw_call list" where
  "draw_icon_calls x y sz icon_type color opacity =
     (let alpha = py_int (fmul opacity 255);
          color_with_alpha = (case color of (r, g, b) \<Rightarrow> (r, g, b, alpha));
          s = fdiv (of_int sz) 64
      in if icon_type = ''chip'' then
           [Rectangle (offs x 16 s, offs y 16 s) (offs x 48 s, offs y 48 s)
              color_with_alpha (stroke s),
            Rectangle (offs x 24 s, offs y 24 s) (offs x 40 s, offs y 40 s)
              color_with_alpha (stroke s)] @
           concat (map (\<lambda>i.
             [Line [(offs x i s, offs y 12 s), (offs x i s, offs y 16 s)]
                color_with_alpha (stroke s) NoJoint,
              Line [(offs x i s, offs y 48 s), (offs x i s, offs y 52 s)]
                color_with_alpha (stroke s) NoJoint]) [20, 28, 36, 44])
         else if icon_type = ''terminal'' then
           [Rectangle (offs x 8 s, offs y 12 s) (offs x 56 s, offs y 52 s)
              color_with_alpha (stroke s),
            Line [(offs x 18 s, offs y 26 s), (offs x 24 s, offs y 30 s),
                  (offs x 18 s, offs y 34 s)] color_with_alpha (stroke s) Curve,
            Line [(offs x 32 s, offs y 34 s), (offs x 40 s, offs y 34 s)]
              color_with_alpha (stroke s) NoJoint]
         else if icon_type = ''wave'' then
           (let points = map (\<lambda>i. (offs x i s,
                   offs y (32 + 8 * (if (i div 8) mod 2 \<noteq> 0 then 1 else - 1)) s))
                 [16, 20, 24, 28, 32, 36, 40, 44, 48]
            in Rectangle (offs x 8 s, offs y 12 s) (offs x 56 s, offs y 52 s)
                 color_with_alpha (stroke s) #
               (if 1 < length points then [Line points color_with_alpha (stroke s) Curve]
                else []))
         else if icon_type = ''resistor'' then
           [Rectangle (offs x 16 s, offs y 28 s) (offs x 48 s, offs y 36 s)
              color_with_alpha (stroke s)] @
           map (\<lambda>offset. Line [(offs x offset s, offs y 28 s), (offs x offset s, offs y 36 s)]
                  color_with_alpha (band_stroke s) NoJoint) [20, 26, 32, 38] @
           [Line [(offs x 8 s, offs y 32 s), (offs x 16 s, offs y 32 s)]
              color_with_alpha (stroke s) NoJoint,
            Line [(offs x 48 s, offs y 32 s), (offs x 56 s, offs y 32 s)]
              color_with_alpha (stroke s) NoJoint]
         else [])"

text \<open>The colour, the stroke width and the coordinates of a call.\<close>

fun call_colour :: "draw_call \<Rightarrow> rgba" where
  "call_colour (Rectangle p q c w) = c"
| "call_colour (Line ps c w j) = c"
| "call_colour (Text p s f c) = c"

fun call_width :: "draw_call \<Rightarrow> int" where
  "call_width (Rectangle p q c w) = w"
| "call_width (Line ps c w j) = w"
| "call_width (Text p s f c) = 0"

fun call_points :: "draw_call \<Rightarrow> point list" where
  "call_points (Rectangle p q c w) = [p, q]"
| "call_points (Line ps c w j) = ps"
| "call_points (Text p s f c) = [p]"

text \<open>
  A point lies in the square \<open>[x, x + size] \<times> [y, y + size]\<close> with margin \<open>m\<close>: moved by
  \<open>m\<close> in either direction along either axis it is still in the square. A stroke of width
  \<open>w\<close> reaches \<open>w / 2\<close> to either side of its centre line.
\<close>

definition point_within :: "int \<Rightarrow> int \<Rightarrow> int \<Rightarrow> rat \<Rightarrow> point \<Rightarrow> bool" where
  "point_within x y sz m p =
     (case p of (px, py) \<Rightarrow>
        of_int x \<le> px - m \<and> px + m \<le> of_int (x + sz) \<and>
        of_int y \<le> py - m \<and> py + m \<le> of_int (y + sz))"

definition points_within :: "int \<Rightarrow> int \<Rightarrow> int \<Rightarrow> draw_call list \<Rightarrow> bool" where
  "points_within x y sz cs =
     list_all (\<lambda>c. list_all (point_within x y sz 0) (call_points c)) cs"

definition strokes_within :: "int \<Rightarrow> int \<Rightarrow> int \<Rightarrow> draw_call list \<Rightarrow> bool" where
  "strokes_within x y sz cs =
     list_all (\<lambda>c. list_all (point_within x y sz (of_int (call_width c) / 2))
                      (call_points c)) cs"

subsection \<open>The gradient overlay (generate\_banner, lines 78 to 95)\<close>

text \<open>
  One colour channel of a column: \<open>int(a + (b - a) * t)\<close>. The difference \<open>b - a\<close> of the
  two stops is an int subtraction; the product and the sum are float operations.
\<close>

definition lerp_channel :: "int \<Rightarrow> int \<Rightarrow> rat \<Rightarrow> int" where
  "lerp_channel a b t = py_int (fadd (of_int a) (fmul (of_int (b - a)) t))"

text \<open>Lines 81 to 92: purple to cyan on the left half, cyan to pink on the right half.\<close>

definition column_rgb :: "rat \<Rightarrow> int \<times> int \<times> int" where
  "column_rgb ratio =
     (if ratio < 1 / 2
      then (let t = fmul ratio 2
            in (lerp_channel 102 14 t, lerp_channel 126 165 t, lerp_channel 234 233 t))
      else (let t = fmul (fsub ratio (1 / 2)) 2
            in (lerp_channel 14 244 t, lerp_channel 165 114 t, lerp_channel 233 182 t)))"

text \<open>Line 94: \<open>alpha = int(25 + 10 * abs(ratio - 0.5) * 2)\<close>.\<close>

definition column_alpha :: "rat \<Rightarrow> int" where
  "column_alpha ratio = py_int (fadd 25 (fmul (fmul 10 \<bar>fsub ratio (1 / 2)\<bar>) 2))"

text \<open>The fill colour \<open>(r, g, b, alpha)\<close> of column \<open>i\<close>, with \<open>ratio = i / width\<close> (line 80).\<close>

definition gradient_column :: "int \<Rightarrow> int \<Rightarrow> int \<times> int \<times> int \<times> int" where
  "gradient_column width i =
     (let ratio = fdiv (of_int i) (of_int width);
          (r, g, b) = column_rgb ratio
      in (r, g, b, column_alpha ratio))"

text \<open>The alpha channel and the colour channels of an RGBA tuple.\<close>

definition alpha_of :: "int \<times> int \<times> int \<times> int \<Rightarrow> int" where
  "alpha_of c = (case c of (r, g, b, a) \<Rightarrow> a)"

definition rgb_of :: "int \<times> int \<times> int \<times> int \<Rightarrow> int \<times> int \<times> int" where
  "rgb_of c = (case c of (r, g, b, a) \<Rightarrow> (r, g, b))"

subsection \<open>Images and the heap\<close>

text \<open>
  Pillow's rasteriser, its decoders and its filters are not part of the repository. An
  image value is the expression of the Pillow calls that produced its pixels: two images
  with the same expression have the same pixels. The mode is Pillow's mode string.
  \<open>New\<close> is \<open>Image.new(mode, size, color)\<close>; \<open>Drawn im c\<close> is \<open>im\<close> after the ImageDraw call
  \<open>c\<close>; \<open>AlphaComposite\<close> is \<open>Image.alpha_composite(im1, im2)\<close>; \<open>Pasted d s box m\<close> is
  \<open>d\<close> after \<open>d.paste(s, box, m)\<close>; \<open>Opened\<close> is a decoded file (path, mode, size, data);
  \<open>Converted\<close>, \<open>Resized\<close> and \<open>Blurred\<close> are \<open>convert(mode)\<close>, \<open>resize(size, LANCZOS)\<close> and
  \<open>filter(GaussianBlur(radius))\<close>.
\<close>

datatype image =
    New string "int \<times> int" "int list"
  | Drawn image draw_call
  | AlphaComposite image image
  | Pasted image image "int \<times> int" image
  | Opened string string "int \<times> int" "nat list"
  | Converted image string
  | Resized image "int \<times> int"
  | Blurred image int

text \<open>The attributes \<open>size\<close> and \<open>mode\<close> of an image, as Pillow documents them.\<close>

fun im_size :: "image \<Rightarrow> int \<times> int" where
  "im_size (New m s c) = s"
| "im_size (Drawn im c) = im_size im"
| "im_size (AlphaComposite a b) = im_size a"
| "im_size (Pasted d s box m) = im_size d"
| "im_size (Opened p m s d) = s"
| "im_size (Converted im m) = im_size im"
| "im_size (Resized im s) = s"
| "im_size (Blurred im r) = im_size im"

fun im_mode :: "image \<Rightarrow> string" where
  "im_mode (New m s c) = m"
| "im_mode (Drawn im c) = im_mode im"
| "im_mode (AlphaComposite a b) = im_mode a"
| "im_mode (Pasted d s box m) = im_mode d"
| "im_mode (Opened p m s d) = m"
| "im_mode (Converted im m) = m"
| "im_mode (Resized im s) = im_mode im"
| "im_mode (Blurred im r) = im_mode im"

text \<open>The strings drawn by \<open>text\<close> calls anywhere in an image.\<close>

fun call_text :: "draw_call \<Rightarrow> string list" where
  "call_text (Text p s f c) = [s]"
| "call_text (Rectangle p q c w) = []"
| "call_text (Line ps c w j) = []"

fun texts_of :: "image \<Rightarrow> string list" where
  "texts_of (New m s c) = []"
| "texts_of (Drawn im c) = texts_of im @ call_text c"
| "texts_of (AlphaComposite a b) = texts_of a @ texts_of b"
| "texts_of (Pasted d s box m) = texts_of d @ texts_of s"
| "texts_of (Opened p m s d) = []"
| "texts_of (Converted im m) = texts_of im"
| "texts_of (Resized im s) = texts_of im"
| "texts_of (Blurred im r) = texts_of im"

text \<open>
  The images that the script mutates in place (by drawing or pasting) are objects of a
  heap; a reference is the index of the object. \<open>ImageDraw.Draw(img, 'RGBA')\<close> is a handle
  on the object \<open>img\<close>, modelled by the reference itself: a call on the handle draws into
  that object, whatever the variable \<open>img\<close> is bound to later.
\<close>

type_synonym ref = nat
type_synonym heap = "image list"

definition alloc :: "image \<Rightarrow> heap \<Rightarrow> ref \<times> heap" where
  "alloc im h = (length h, h @ [im])"

definition draw_on :: "ref \<Rightarrow> draw_call \<Rightarrow> heap \<Rightarrow> heap" where
  "draw_on d c h = h[d := Drawn (h ! d) c]"

definition paste :: "ref \<Rightarrow> image \<Rightarrow> int \<times> int \<Rightarrow> image \<Rightarrow> heap \<Rightarrow> heap" where
  "paste d src box msk h = h[d := Pasted (h ! d) src box msk]"

text \<open>The exceptions of a run.\<close>

datatype py_error =
    FileNotFoundError | UnidentifiedImageError | OSError | ZeroDivisionError | ValueError
  | OverflowError

text \<open>
  \<open>draw_icon(draw, x, y, size, icon_type, color, opacity)\<close>, with ints \<open>x\<close>, \<open>y\<close> and
  \<open>size\<close> and a finite float \<open>opacity\<close>: the exception it raises, or the heap after its
  calls on \<open>draw\<close>.

  Lines 13 and 17 run for every icon type, before the \<open>if\<close>/\<open>elif\<close> chain: \<open>int(opacity * 255)\<close>
  raises \<open>OverflowError\<close> when the product overflows (\<open>int\<close> of an infinity), and so does
  \<open>size / 64\<close> when the quotient overflows. In each of the four branches the arguments of
  the first call, a \<open>rectangle\<close>, are evaluated before anything is drawn: the sums
  \<open>x + k * s\<close> and \<open>y + k * s\<close> convert \<open>x\<close> and \<open>y\<close> to floats, and the width is
  \<open>max(1, int(2 * s))\<close>; each raises \<open>OverflowError\<close> on overflow. Past the first call no
  expression of the function can raise: \<open>s\<close>, \<open>x\<close> and \<open>y\<close> are finite, and a product
  \<open>k * s\<close> or a sum \<open>x + k * s\<close> that overflows is an infinity, not an exception. So the
  function raises before its first call or not at all, and the calls it makes are those of
  \<open>draw_icon_calls\<close>, with their colours and widths. (A coordinate overflows only for a
  size of magnitude \<open>2 ^ 970\<close> or more; \<open>draw_icon_calls\<close> then holds the value that \<open>fl\<close>
  gives where the script has an infinity. The properties of coordinates below bound the
  size and the anchor by \<open>2 ^ 40\<close>.) What Pillow does with the arguments of a call is not
  part of the repository: a call is recorded with its arguments and taken to return.
\<close>

definition draw_icon ::
    "ref \<Rightarrow> int \<Rightarrow> int \<Rightarrow> int \<Rightarrow> string \<Rightarrow> rgb \<Rightarrow> rat \<Rightarrow> heap \<Rightarrow> py_error + heap" where
  "draw_icon draw x y sz icon_type color opacity h =
     (if overflows (fmul opacity 255) then Inl OverflowError
      else if overflows (fdiv (of_int sz) 64) then Inl OverflowError
      else if icon_type \<in> {''chip'', ''terminal'', ''wave'', ''resistor''} \<and>
              (overflows (fl (of_int x)) \<or> overflows (fl (of_int y)) \<or>
               overflows (fmul 2 (fdiv (of_int sz) 64)))
           then Inl OverflowError
      else Inr (foldl (\<lambda>h c. draw_on draw c h) h
                  (draw_icon_calls x y sz icon_type color opacity)))"

subsection \<open>The environment of a run\<close>

text \<open>
  What a run reads from outside: the outcome of opening and decoding the logo file (the
  exception raised, or the mode, size and data of the image), which font files can be
  loaded, whether the output file can be written, and the state of the \<open>random\<close> module
  that line 9 imports. Console output is not modelled.
\<close>

record env =
  logo_file :: "py_error + string \<times> (int \<times> int) \<times> nat list"
  font_files :: "string \<Rightarrow> bool"
  can_write :: bool
  random_state :: "nat list"

record jpeg_file =
  path :: string
  pixels :: image
  quality :: nat
  optimize :: bool

subsection \<open>generate\_banner (lines 65 to 183)\<close>

text \<open>Line 95: the gradient line of column \<open>i\<close>; lines 78 to 95: the loop over \<open>range(width)\<close>.\<close>

definition gradient_line :: "int \<Rightarrow> int \<Rightarrow> int \<Rightarrow> draw_call" where
  "gradient_line width height i =
     Line [(of_int i, 0), (of_int i, of_int height)] (gradient_column width i) 0 NoJoint"

definition draw_gradient :: "ref \<Rightarrow> int \<Rightarrow> int \<Rightarrow> heap \<Rightarrow> heap" where
  "draw_gradient grad_draw width height h =
     foldl (\<lambda>h i. draw_on grad_draw (gradient_line width height i) h) h
       (map int [0..<nat width])"

text \<open>Lines 101 to 111. A float literal denotes the nearest double.\<close>

definition icon_positions :: "(int \<times> int \<times> int \<times> string \<times> rgb \<times> rat) list" where
  "icon_positions =
     [(80, 80, 48, ''chip'', (102, 126, 234), fl (8 / 100)),
      (180, 450, 32, ''terminal'', (14, 165, 233), fl (12 / 100)),
      (950, 120, 56, ''wave'', (244, 114, 182), fl (10 / 100)),
      (1050, 500, 40, ''resistor'', (102, 126, 234), fl (9 / 100)),
      (280, 150, 24, ''chip'', (14, 165, 233), fl (15 / 100)),
      (920, 380, 36, ''terminal'', (244, 114, 182), fl (11 / 100)),
      (120, 520, 28, ''wave'', (102, 126, 234), fl (13 / 100)),
      (1100, 250, 32, ''chip'', (14, 165, 233), fl (10 / 100))]"

text \<open>\<open>ImageFont.truetype(file, size)\<close> raises \<open>OSError\<close> when the file cannot be loaded.\<close>

definition bold_ttf :: string where
  "bold_ttf = ''/usr/share/fonts/truetype/dejavu/DejaVuSans-Bold.ttf''"

definition sans_ttf :: string where
  "sans_ttf = ''/usr/share/fonts/truetype/dejavu/DejaVuSans.ttf''"

definition truetype :: "env \<Rightarrow> string \<Rightarrow> int \<Rightarrow> py_error + font" where
  "truetype env file sz = (if font_files env file then Inr (TrueType file sz) else Inl OSError)"

text \<open>
  Lines 118 to 123, the part of the \<open>try\<close> block that can raise: opening and converting
  the logo, the division \<open>logo.width / logo.height\<close>, and the resize, which Pillow refuses
  with \<open>ValueError\<close> when a side of the target is below 1.
\<close>

definition load_logo :: "env \<Rightarrow> py_error + image" where
  "load_logo env =
     (case logo_file env of
        Inl e \<Rightarrow> Inl e
      | Inr (m, (w, h), d) \<Rightarrow>
          (let logo = Converted (Opened ''docs/brand/Logo.png'' m (w, h) d) ''RGBA'';
               logo_height = 340
           in if h = 0 then Inl ZeroDivisionError
              else (let aspect = fdiv (of_int w) (of_int h);
                        logo_width = py_int (fmul (of_int logo_height) aspect)
                    in if logo_width < 1 \<or> logo_height < 1 then Inl ValueError
                       else Inr (Resized logo (logo_width, logo_height)))))"

text \<open>
  Lines 117 to 146. When the \<open>try\<close> block raises, the handler draws \<open>JW\<close> on \<open>draw\<close> if its
  font loads, and passes otherwise. The step returns a heap in every case: no exception
  leaves it.
\<close>

definition logo_step :: "env \<Rightarrow> ref \<Rightarrow> ref \<Rightarrow> int \<Rightarrow> heap \<Rightarrow> heap" where
  "logo_step env draw img height h =
     (case load_logo env of
        Inr logo \<Rightarrow>
          (let logo_height = 340;
               logo_x = 40;
               logo_y = (height - logo_height) div 2;
               glow = Blurred logo 30;
               h = paste img glow (logo_x, logo_y) glow h;
               h = paste img glow (logo_x, logo_y) glow h;
               h = paste img glow (logo_x, logo_y) glow h
           in paste img logo (logo_x, logo_y) logo h)
      | Inl e \<Rightarrow>
          (case truetype env bold_ttf 140 of
             Inr font_logo \<Rightarrow> draw_on draw (Text (100, 250) ''JW'' font_logo (14, 165, 233, 255)) h
           | Inl e' \<Rightarrow> h))"

text \<open>Lines 152 to 160: three fonts, or the default font for all three.\<close>

definition load_fonts :: "env \<Rightarrow> font \<times> font \<times> font" where
  "load_fonts env =
     (case truetype env bold_ttf 60 of
        Inl e \<Rightarrow> (DefaultFont, DefaultFont, DefaultFont)
      | Inr font_name \<Rightarrow>
          (case truetype env sans_ttf 30 of
             Inl e \<Rightarrow> (DefaultFont, DefaultFont, DefaultFont)
           | Inr font_title \<Rightarrow>
               (case truetype env sans_ttf 21 of
                  Inl e \<Rightarrow> (DefaultFont, DefaultFont, DefaultFont)
                | Inr font_subtitle \<Rightarrow> (font_name, font_title, font_subtitle))))"

text \<open>The subtitle; the multiplication sign is U+00D7, two bytes in UTF-8.\<close>

definition subtitle :: string where
  "subtitle = ''Software '' @ [CHR 0xC3, CHR 0x97] @ '' Hardware '' @ [CHR 0xC3, CHR 0x97] @
              '' Fabrication''"

text \<open>Lines 113 and 114: the loop over \<open>icon_positions\<close>; an exception ends it.\<close>

fun draw_icons ::
    "ref \<Rightarrow> (int \<times> int \<times> int \<times> string \<times> rgb \<times> rat) list \<Rightarrow> heap \<Rightarrow> py_error + heap" where
  "draw_icons draw [] h = Inr h"
| "draw_icons draw ((x, y, sz, icon, color, opacity) # ps) h =
     (case draw_icon draw x y sz icon color opacity h of
        Inl e \<Rightarrow> Inl e
      | Inr h' \<Rightarrow> draw_icons draw ps h')"

text \<open>
  The function. \<open>draw\<close> is bound on line 71 to the handle of the first image; line 97
  binds \<open>img\<close> to the new image that \<open>alpha_composite\<close> returns; line 163 binds \<open>draw\<close> to a
  handle of that new image. The result is the file written by \<open>save\<close>, or the exception
  that ends the run.
\<close>

definition generate_banner :: "env \<Rightarrow> py_error + jpeg_file" where
  "generate_banner env =
     (let width = 1200;
          height = 630;
          (img, h) = alloc (New ''RGBA'' (width, height) [15, 23, 42, 255]) [];
          draw = img;
          (gradient, h) = alloc (New ''RGBA'' (width, height) [0, 0, 0, 0]) h;
          grad_draw = gradient;
          h = draw_gradient grad_draw width height h;
          (img, h) = alloc (AlphaComposite (h ! img) (h ! gradient)) h
      in case draw_icons draw icon_positions h of
           Inl e \<Rightarrow> Inl e
         | Inr h \<Rightarrow>
             (let h = logo_step env draw img height h;
                  text_x = 480;
                  (font_name, font_title, font_subtitle) = load_fonts env;
                  draw = img;
                  h = draw_on draw (Text (text_x, 230) ''Josh Wentworth'' font_name
                        (255, 255, 255, 255)) h;
                  h = draw_on draw (Text (text_x, 315) ''Multidisciplinary Engineer''
                        font_title (148, 163, 184, 255)) h;
                  h = draw_on draw (Text (text_x, 375) subtitle font_subtitle
                        (14, 165, 233, 255)) h;
                  (img_rgb, h) = alloc (New ''RGB'' (width, height) [15, 23, 42]) h;
                  h = paste img_rgb (h ! img) (0, 0) (h ! img) h
              in if can_write env
                 then Inr \<lparr>path = ''web/static/banner.jpg'', pixels = h ! img_rgb,
                           quality = 95, optimize = True\<rparr>
                 else Inl OSError))"

subsection \<open>The written image in closed form\<close>

text \<open>
  The images that the properties below speak of: the gradient drawn on an image, the
  composite of line 97, the composite after the logo step, and after the three lines of
  text.
\<close>

definition gradient_image :: "int \<Rightarrow> int \<Rightarrow> image \<Rightarrow> image" where
  "gradient_image width height im =
     foldl Drawn im (map (gradient_line width height \<circ> int) [0..<nat width])"

definition composite_image :: image where
  "composite_image =
     AlphaComposite (New ''RGBA'' (1200, 630) [15, 23, 42, 255])
       (gradient_image 1200 630 (New ''RGBA'' (1200, 630) [0, 0, 0, 0]))"

definition logo_image :: "env \<Rightarrow> image" where
  "logo_image env =
     (case load_logo env of
        Inr logo \<Rightarrow>
          Pasted (Pasted (Pasted (Pasted composite_image
            (Blurred logo 30) (40, 145) (Blurred logo 30))
            (Blurred logo 30) (40, 145) (Blurred logo 30))
            (Blurred logo 30) (40, 145) (Blurred logo 30))
            logo (40, 145) logo
      | Inl e \<Rightarrow> composite_image)"

definition banner_image :: "env \<Rightarrow> image" where
  "banner_image env =
     (case load_fonts env of
        (font_name, font_title, font_subtitle) \<Rightarrow>
          Drawn (Drawn (Drawn (logo_image env)
            (Text (480, 230) ''Josh Wentworth'' font_name (255, 255, 255, 255)))
            (Text (480, 315) ''Multidisciplinary Engineer'' font_title (148, 163, 184, 255)))
            (Text (480, 375) subtitle font_subtitle (14, 165, 233, 255)))"

subsection \<open>The gradient as the specification words it\<close>

text \<open>
  The two-colour linear interpolation in exact rational arithmetic, each channel truncated
  to an integer: the reading of section 4.2 of the specification, to be compared with
  \<open>column_rgb\<close>, which rounds every intermediate result to a double.
\<close>

definition spec_lerp :: "int \<Rightarrow> int \<Rightarrow> rat \<Rightarrow> int" where
  "spec_lerp a b t = py_int (of_int a + of_int (b - a) * t)"

definition spec_colour :: "int \<Rightarrow> int \<Rightarrow> int \<times> int \<times> int" where
  "spec_colour width i =
     (let r = of_int i / of_int width :: rat
      in if r < 1 / 2
         then (let t = 2 * r
               in (spec_lerp 102 14 t, spec_lerp 126 165 t, spec_lerp 234 233 t))
         else (let t = 2 * (r - 1 / 2)
               in (spec_lerp 14 244 t, spec_lerp 165 114 t, spec_lerp 233 182 t)))"

text \<open>
  The alpha of an icon as section 4.1 of the specification words it: \<open>round(opacity * 255)\<close>,
  the nearest integer.
\<close>

definition spec_icon_alpha :: "rat \<Rightarrow> int" where
  "spec_icon_alpha opacity = rne (opacity * 255)"

section \<open>Properties\<close>

subsection \<open>Powers of two and the binary exponent\<close>

lemma pow2_powi: "pow2 k = 2 powi k"
  by (simp add: pow2_def power_int_def inverse_eq_divide power_one_over)

lemma pow2_pos: "0 < pow2 k"
  by (simp add: pow2_powi zero_less_power_int)

lemma pow2_add: "pow2 (a + b) = pow2 a * pow2 b"
  by (simp add: pow2_powi power_int_add)

lemma pow2_0: "pow2 0 = 1"
  by (simp add: pow2_def)

lemma pow2_1: "pow2 1 = 2"
  by (simp add: pow2_def)

lemma pow2_2: "pow2 2 = 4"
  by (simp add: pow2_def)

lemma pow2_Suc: "pow2 (k + 1) = 2 * pow2 k"
  by (simp add: pow2_add pow2_1)

lemma pow2_pred: "pow2 (k - 1) = pow2 k / 2"
  using pow2_Suc [of "k - 1"] by simp

lemma pow2_mono: "a \<le> b \<Longrightarrow> pow2 a \<le> pow2 b"
  by (simp add: pow2_powi power_int_increasing)

lemma pow2_nat: "pow2 (int n) = 2 ^ n"
  by (simp add: pow2_def)

lemma pow2_neg_nat: "pow2 (- int n) = 1 / 2 ^ n"
  by (simp add: pow2_powi power_int_minus inverse_eq_divide)

lemma ilog2_bounds: "0 < x \<Longrightarrow> pow2 (ilog2 x) \<le> x \<and> x < pow2 (ilog2 x + 1)"
proof (induction x rule: ilog2.induct)
  case (1 x)
  show ?case
  proof (cases "x < 1")
    case True
    with "1.prems" have ih: "pow2 (ilog2 (x * 2)) \<le> x * 2 \<and> x * 2 < pow2 (ilog2 (x * 2) + 1)"
      using "1.IH"(1) by simp
    have e: "ilog2 x = ilog2 (x * 2) - 1"
      using True "1.prems" by (subst ilog2.simps) simp
    show ?thesis using ih by (simp add: e pow2_pred pow2_add pow2_1)
  next
    case False
    show ?thesis
    proof (cases "2 \<le> x")
      case True
      with False "1.prems" have ih: "pow2 (ilog2 (x / 2)) \<le> x / 2 \<and> x / 2 < pow2 (ilog2 (x / 2) + 1)"
        using "1.IH"(2) by simp
      have e: "ilog2 x = ilog2 (x / 2) + 1"
        using True False "1.prems" by (subst ilog2.simps) simp
      show ?thesis using ih by (simp add: e pow2_add pow2_1 pow2_2)
    next
      case b: False
      have e: "ilog2 x = 0"
        using b False "1.prems" by (subst ilog2.simps) simp
      show ?thesis using b False by (simp add: e pow2_0 pow2_1)
    qed
  qed
qed

lemma ilog2_less: "0 < x \<Longrightarrow> x < pow2 j \<Longrightarrow> ilog2 x < j"
proof (rule ccontr)
  assume x: "0 < x" "x < pow2 j" and "\<not> ilog2 x < j"
  then have "pow2 j \<le> pow2 (ilog2 x)" by (simp add: pow2_mono)
  with ilog2_bounds [OF x(1)] x(2) show False by simp
qed

lemma rne_of_int: "rne (of_int n) = n"
  by (simp add: rne_def)

lemma rne_error: "\<bar>of_int (rne y) - y\<bar> \<le> 1 / 2"
proof -
  have "of_int \<lfloor>y\<rfloor> \<le> y" "y < of_int \<lfloor>y\<rfloor> + 1" by linarith+
  then show ?thesis by (auto simp: rne_def)
qed


lemma fl_error:
  assumes "\<bar>x\<bar> < pow2 (E + 1)" and "- 1074 \<le> E - 52"
  shows "\<bar>fl x - x\<bar> \<le> pow2 (E - 53)"
proof (cases "x = 0")
  case True
  then show ?thesis using pow2_pos [of "E - 53"] by (simp add: fl_def)
next
  case False
  define q where "q = max (ilog2 \<bar>x\<bar> - 52) (- 1074)"
  define y where "y = x / pow2 q"
  have "ilog2 \<bar>x\<bar> < E + 1"
    using False assms(1) by (intro ilog2_less) simp_all
  then have q: "q \<le> E - 52" using assms(2) by (simp add: q_def)
  have flx: "fl x = of_int (rne y) * pow2 q"
    using False unfolding fl_def round_at_def q_def y_def by simp
  have "y * pow2 q = x" using pow2_pos [of q] by (simp add: y_def)
  then have "fl x - x = (of_int (rne y) - y) * pow2 q"
    by (simp add: flx algebra_simps)
  then have "\<bar>fl x - x\<bar> = \<bar>of_int (rne y) - y\<bar> * pow2 q"
    using pow2_pos [of q] by (simp add: abs_mult)
  also have "\<dots> \<le> (1 / 2) * pow2 q"
    using rne_error [of y] pow2_pos [of q] by (intro mult_right_mono) simp_all
  also have "\<dots> = pow2 (q - 1)" by (simp add: pow2_pred)
  also have "\<dots> \<le> pow2 (E - 53)" using q by (intro pow2_mono) simp
  finally show ?thesis .
qed

lemma fl_dyadic:
  assumes n: "\<bar>n\<bar> < 2 ^ 53" and k: "k \<le> 1074"
  shows "fl (of_int n / 2 ^ k) = of_int n / 2 ^ k"
proof (cases "n = 0")
  case True
  then show ?thesis by (simp add: fl_def)
next
  case False
  define x :: rat where "x = of_int n / 2 ^ k"
  define q where "q = max (ilog2 \<bar>x\<bar> - 52) (- 1074)"
  have x0: "x \<noteq> 0" using False by (simp add: x_def)
  have xp: "x = of_int n * pow2 (- int k)" by (simp add: x_def pow2_neg_nat)
  have "\<bar>of_int n :: rat\<bar> < 2 ^ 53" using n by (metis of_int_abs of_int_less_numeral_power_cancel_iff)
  then have "\<bar>x\<bar> < 2 ^ 53 * pow2 (- int k)"
    using pow2_pos [of "- int k"] by (simp add: xp abs_mult)
  also have "\<dots> = pow2 (53 - int k)"
    using pow2_add [of 53 "- int k"] by (simp add: pow2_def)
  finally have "ilog2 \<bar>x\<bar> < 53 - int k" using x0 by (intro ilog2_less) simp_all
  then have q: "q \<le> - int k" using k by (simp add: q_def)
  define m where "m = nat (- int k - q)"
  have pq: "pow2 (- int k) = 2 ^ m * pow2 q"
  proof -
    have "pow2 (- int k) = pow2 (int m + q)" using q by (simp add: m_def)
    then show ?thesis by (simp add: pow2_add pow2_nat)
  qed
  have y: "x / pow2 q = of_int (n * 2 ^ m)"
    using pow2_pos [of q] by (simp add: xp pq)
  have "fl x = of_int (rne (x / pow2 q)) * pow2 q"
    using x0 unfolding fl_def round_at_def q_def by simp
  also have "\<dots> = of_int (n * 2 ^ m) * pow2 q"
    by (simp only: y rne_of_int)
  also have "\<dots> = x" by (simp add: xp pq)
  finally show ?thesis by (simp add: x_def)
qed

subsection \<open>Evaluating the rounding on numerals\<close>

lemma floor_rat_numeral: "\<lfloor>(numeral a :: rat) / numeral b\<rfloor> = numeral a div numeral b"
  by (metis floor_divide_of_int_eq of_int_numeral)

lemma floor_rat_neg_numeral: "\<lfloor>- ((numeral a :: rat) / numeral b)\<rfloor> = - numeral a div numeral b"
  by (metis divide_minus_left floor_divide_of_int_eq of_int_neg_numeral of_int_numeral)

lemma floor_rat_one_numeral: "\<lfloor>(1 :: rat) / numeral b\<rfloor> = 1 div numeral b"
  by (metis floor_divide_of_int_eq of_int_numeral of_int_1)

lemma floor_rat_neg_one_numeral: "\<lfloor>- ((1 :: rat) / numeral b)\<rfloor> = - 1 div numeral b"
  by (metis divide_minus_left floor_divide_of_int_eq of_int_minus of_int_numeral of_int_1)

lemma ceiling_rat_numeral: "\<lceil>(numeral a :: rat) / numeral b\<rceil> = - (- numeral a div numeral b)"
  by (simp add: ceiling_def floor_rat_neg_numeral)

lemma ceiling_rat_neg_numeral: "\<lceil>- ((numeral a :: rat) / numeral b)\<rceil> = - (numeral a div numeral b)"
  by (simp add: ceiling_def floor_rat_numeral)

lemma fl_0: "fl 0 = 0" by (simp add: fl_def)

lemma fl_pos: "0 < x \<Longrightarrow> fl x = round_at (max (ilog2 x - 52) (- 1074)) x"
  by (simp add: fl_def)

lemma fl_neg: "x < 0 \<Longrightarrow> fl x = round_at (max (ilog2 (- x) - 52) (- 1074)) x"
  by (simp add: fl_def)

lemma ilog2_lt1: "0 < x \<Longrightarrow> x < 1 \<Longrightarrow> ilog2 x = ilog2 (x * 2) - 1"
  by (subst ilog2.simps) simp

lemma ilog2_ge2: "2 \<le> x \<Longrightarrow> ilog2 x = ilog2 (x / 2) + 1"
  by (subst ilog2.simps) simp

lemma ilog2_unit: "1 \<le> x \<Longrightarrow> x < 2 \<Longrightarrow> ilog2 x = 0"
  by (subst ilog2.simps) simp

lemmas fl_eval = fl_0 fl_pos fl_neg ilog2_lt1 ilog2_ge2 ilog2_unit round_at_def rne_def pow2_def
  floor_rat_numeral floor_rat_neg_numeral floor_rat_one_numeral floor_rat_neg_one_numeral
  ceiling_rat_numeral ceiling_rat_neg_numeral

lemmas prog_eval = fadd_def fsub_def fmul_def fdiv_def py_int_def lerp_channel_def
  column_rgb_def column_alpha_def gradient_column_def Let_def

subsection \<open>Rounding errors of the gradient arithmetic\<close>

lemma fl_err: "\<bar>x\<bar> \<le> 256 \<Longrightarrow> \<bar>fl x - x\<bar> \<le> 1 / 2 ^ 45"
proof -
  assume "\<bar>x\<bar> \<le> 256"
  then have "\<bar>x\<bar> < pow2 (8 + 1)" by (simp add: pow2_def)
  then have "\<bar>fl x - x\<bar> \<le> pow2 (8 - 53)" by (rule fl_error) simp
  then show ?thesis by (simp add: pow2_def)
qed

lemma floor_gap:
  fixes s v :: rat and N D :: int
  assumes D: "0 < D" and v: "v = of_int N / of_int D" and nd: "\<not> D dvd N"
    and close: "\<bar>s - v\<bar> < 1 / of_int D"
  shows "\<lfloor>s\<rfloor> = N div D"
proof -
  define r where "r = N mod D"
  have "0 \<le> N mod D" "N mod D < D" using D by simp_all
  moreover have "N mod D \<noteq> 0" using nd by (simp add: dvd_eq_mod_eq_0)
  ultimately have r: "1 \<le> r" "r \<le> D - 1" by (simp_all add: r_def)
  have "N = D * (N div D) + r" by (simp add: r_def)
  then have "(of_int N :: rat) = of_int D * of_int (N div D) + of_int r"
    by (metis of_int_add of_int_mult)
  then have veq: "v = of_int (N div D) + of_int r / of_int D"
    using D by (simp add: v field_simps)
  have "(1 :: rat) \<le> of_int r" "(of_int r :: rat) \<le> of_int D - 1"
    using r by (simp_all flip: of_int_diff add: of_int_le_iff)
  then have "1 / of_int D \<le> of_int r / (of_int D :: rat)"
       "of_int r / (of_int D :: rat) \<le> 1 - 1 / of_int D"
    using D by (simp_all add: field_simps)
  with veq close have "of_int (N div D) \<le> s" "s < of_int (N div D) + 1"
    by (simp_all add: abs_less_iff)
  then show ?thesis by (simp add: floor_unique)
qed


lemma fl_err_e:
  fixes e :: rat
  assumes "e = 1 / 2 ^ 45" and "\<bar>x\<bar> \<le> 256"
  shows "\<bar>fl x - x\<bar> \<le> e"
  using fl_err [OF assms(2)] assms(1) by simp

lemma lerp_channel_exact:
  fixes a b j :: int and t' :: rat
  assumes a: "0 \<le> a" "a \<le> 255" and b: "0 \<le> b" "b \<le> 255"
    and j: "0 \<le> j" "j < 600"
    and t': "\<bar>t' - of_int j / 600\<bar> \<le> 5 / 2 ^ 45"
    and nd: "\<not> 600 dvd (b - a) * j"
  shows "lerp_channel a b t' = (600 * a + (b - a) * j) div 600"
proof -
  define e :: rat where "e = 1 / 2 ^ 45"
  define t :: rat where "t = of_int j / 600"
  define K where "K = b - a"
  define p where "p = fmul (of_int K) t'"
  define s where "s = fadd (of_int a) p"
  define v :: rat where "v = of_int a + of_int K * t"
  define N where "N = 600 * a + K * j"
  have e: "0 \<le> e" "1277 * e < 1 / 600" by (simp_all add: e_def)
  have t01: "0 \<le> t" "t \<le> 1" using j by (simp_all add: t_def)
  have tt: "\<bar>t' - t\<bar> \<le> 5 * e" using t' by (simp add: t_def e_def)
  have ra: "(0 :: rat) \<le> of_int a" "(of_int a :: rat) \<le> 255"
    and rb: "(0 :: rat) \<le> of_int b" "(of_int b :: rat) \<le> 255"
    using a b by simp_all
  have K: "\<bar>of_int K :: rat\<bar> \<le> 255"
    using ra rb by (simp add: K_def abs_le_iff)
  have "\<bar>of_int K * t' - of_int K * t\<bar> = \<bar>of_int K :: rat\<bar> * \<bar>t' - t\<bar>"
    by (simp add: abs_mult flip: right_diff_distrib)
  also have "\<dots> \<le> 255 * (5 * e)"
    using K tt by (intro mult_mono) simp_all
  finally have e1: "\<bar>of_int K * t' - of_int K * t\<bar> \<le> 1275 * e" by simp
  have "\<bar>of_int K * t\<bar> = \<bar>of_int K :: rat\<bar> * \<bar>t\<bar>" by (simp add: abs_mult)
  also have "\<dots> \<le> 255 * 1" using K t01 by (intro mult_mono) simp_all
  finally have Kt: "\<bar>of_int K * t\<bar> \<le> 255" by simp
  have "\<bar>of_int K * t'\<bar> \<le> 256" using e1 Kt e by linarith
  then have "\<bar>p - of_int K * t'\<bar> \<le> e"
    unfolding p_def fmul_def by (rule fl_err_e [OF e_def])
  with e1 have ep: "\<bar>p - of_int K * t\<bar> \<le> 1276 * e" by linarith
  have vc: "v = of_int a * (1 - t) + of_int b * t"
    by (simp add: v_def K_def algebra_simps)
  have lo: "0 \<le> of_int a * (1 - t)" "0 \<le> of_int b * t"
    using ra rb t01 by simp_all
  have "of_int a * (1 - t) \<le> 255 * (1 - t)"
    using ra t01 by (intro mult_right_mono) simp_all
  moreover have "of_int b * t \<le> 255 * t"
    using rb t01 by (intro mult_right_mono) simp_all
  ultimately have "of_int a * (1 - t) + of_int b * t \<le> 255" by simp
  with lo have v: "0 \<le> v" "v \<le> 255" by (simp_all add: vc)
  have "\<bar>of_int a + p\<bar> \<le> 256" using v ep e unfolding v_def by linarith
  then have "\<bar>s - (of_int a + p)\<bar> \<le> e"
    unfolding s_def fadd_def by (rule fl_err_e [OF e_def])
  with ep have "\<bar>s - v\<bar> \<le> 1277 * e" unfolding v_def by linarith
  with e have close: "\<bar>s - v\<bar> < 1 / of_int 600" by simp
  have vN: "v = of_int N / of_int 600"
    by (simp add: v_def N_def t_def field_simps)
  have "(600 :: int) dvd 600 * a" by simp
  then have "600 dvd N \<longleftrightarrow> 600 dvd K * j"
    unfolding N_def by (rule dvd_add_right_iff)
  with nd have "\<not> 600 dvd N" by (simp add: K_def)
  with close vN have fl: "\<lfloor>s\<rfloor> = N div 600" by (intro floor_gap) simp_all
  have "0 \<le> N" using v by (simp add: vN)
  then have "0 \<le> N div 600" by simp
  with fl have "0 \<le> s" by (simp add: zero_le_floor flip: fl)
  then show ?thesis
    by (simp add: lerp_channel_def s_def [symmetric] p_def [symmetric] K_def [symmetric]
                  py_int_def fl N_def)
qed


lemma spec_lerp_eq:
  fixes a b j :: int
  assumes a: "0 \<le> a" "a \<le> 255" and b: "0 \<le> b" "b \<le> 255" and j: "0 \<le> j" "j < 600"
  shows "spec_lerp a b (of_int j / 600) = (600 * a + (b - a) * j) div 600"
proof -
  define N where "N = 600 * a + (b - a) * j"
  have "N = a * (600 - j) + b * j" by (simp add: N_def algebra_simps)
  moreover have "0 \<le> a * (600 - j)" "0 \<le> b * j" using a b j by simp_all
  ultimately have N: "0 \<le> N" by simp
  have v: "of_int a + of_int (b - a) * (of_int j / 600) = (of_int N :: rat) / of_int 600"
    by (simp add: N_def field_simps)
  have "(0 :: rat) \<le> of_int N / of_int 600" using N by simp
  then show ?thesis
    unfolding spec_lerp_def v py_int_def N_def [symmetric]
    by (simp only: if_True floor_divide_of_int_eq)
qed

lemma column_alpha_exact:
  fixes i :: int and ratio :: rat
  assumes i: "0 \<le> i" "i < 1200"
    and r: "\<bar>ratio - of_int i / 1200\<bar> \<le> 1 / 2 ^ 45"
    and nd: "\<not> 60 dvd i"
  shows "column_alpha ratio = 25 + \<bar>i - 600\<bar> div 60"
proof -
  define e :: rat where "e = 1 / 2 ^ 45"
  define \<rho> :: rat where "\<rho> = of_int i / 1200"
  define d where "d = fsub ratio (1 / 2)"
  define A where "A = \<bar>d\<bar>"
  define B where "B = \<bar>\<rho> - 1 / 2\<bar>"
  define m1 where "m1 = fmul 10 A"
  define m2 where "m2 = fmul m1 2"
  define s where "s = fadd 25 m2"
  define v :: rat where "v = 25 + 20 * B"
  define N where "N = 1500 + \<bar>i - 600\<bar>"
  have e: "0 \<le> e" "44 * e < 1 / 60" by (simp_all add: e_def)
  have \<rho>: "0 \<le> \<rho>" "\<rho> \<le> 1" using i by (simp_all add: \<rho>_def)
  have B: "0 \<le> B" "B \<le> 1 / 2" using \<rho> unfolding B_def by linarith+
  have rr: "\<bar>ratio - \<rho>\<bar> \<le> e" using r by (simp add: \<rho>_def e_def)
  have "\<bar>ratio - 1 / 2\<bar> \<le> 256" using rr \<rho> e by linarith
  then have "\<bar>d - (ratio - 1 / 2)\<bar> \<le> e"
    unfolding d_def fsub_def by (rule fl_err_e [OF e_def])
  with rr have ed: "\<bar>A - B\<bar> \<le> 2 * e" unfolding A_def B_def by linarith
  have "\<bar>10 * A\<bar> \<le> 256" using ed B e by linarith
  then have "\<bar>m1 - 10 * A\<bar> \<le> e"
    unfolding m1_def fmul_def by (rule fl_err_e [OF e_def])
  with ed have e1: "\<bar>m1 - 10 * B\<bar> \<le> 21 * e" by linarith
  have "\<bar>m1 * 2\<bar> \<le> 256" using e1 B e by linarith
  then have "\<bar>m2 - m1 * 2\<bar> \<le> e"
    unfolding m2_def fmul_def by (rule fl_err_e [OF e_def])
  with e1 have e2: "\<bar>m2 - 20 * B\<bar> \<le> 43 * e" by linarith
  have "\<bar>25 + m2\<bar> \<le> 256" using e2 B e by linarith
  then have "\<bar>s - (25 + m2)\<bar> \<le> e"
    unfolding s_def fadd_def by (rule fl_err_e [OF e_def])
  with e2 have "\<bar>s - v\<bar> \<le> 44 * e" unfolding v_def by linarith
  with e have close: "\<bar>s - v\<bar> < 1 / of_int 60" by simp
  have "\<rho> - 1 / 2 = of_int (i - 600) / 1200" by (simp add: \<rho>_def field_simps)
  then have "B = of_int \<bar>i - 600\<bar> / 1200"
    unfolding B_def by (simp only: abs_divide of_int_abs)
  then have vN: "v = of_int N / of_int 60"
    by (simp add: v_def N_def field_simps)
  have "\<not> 60 dvd N" using nd unfolding N_def by presburger
  with close vN have fl: "\<lfloor>s\<rfloor> = N div 60" by (intro floor_gap) simp_all
  have "0 \<le> N div 60" by (simp add: N_def)
  with fl have "0 \<le> s" by (simp add: zero_le_floor flip: fl)
  moreover have "N div 60 = 25 + \<bar>i - 600\<bar> div 60" by (simp add: N_def)
  ultimately show ?thesis
    by (simp add: column_alpha_def s_def [symmetric] m2_def [symmetric] m1_def [symmetric]
                  A_def [symmetric] d_def [symmetric] py_int_def fl)
qed

lemma not_dvd_scaled:
  fixes c u q m g i :: int
  assumes g: "g \<noteq> 0" and inv: "c * u = q * m + 1" and nd: "\<not> m dvd i"
  shows "\<not> (g * m) dvd (g * c) * i"
proof
  assume "(g * m) dvd (g * c) * i"
  then obtain k where "g * c * i = g * m * k" by (auto simp: dvd_def)
  then have "g * (c * i) = g * (m * k)" by (simp add: mult.assoc)
  then have ci: "c * i = m * k" using g by simp
  have "i = (c * u - q * m) * i" using inv by simp
  also have "\<dots> = u * (c * i) - q * m * i" by (simp add: algebra_simps)
  also have "\<dots> = m * (u * k - q * i)" by (simp add: ci algebra_simps)
  finally have "m dvd i" by (metis dvd_triv_left)
  with nd show False ..
qed

lemma ratio_close:
  assumes "0 \<le> i" "i < 1200"
  shows "\<bar>fdiv (of_int i) 1200 - of_int i / 1200\<bar> \<le> 1 / 2 ^ 45"
proof -
  have "\<bar>(of_int i :: rat) / 1200\<bar> \<le> 256" using assms by simp
  then show ?thesis unfolding fdiv_def by (rule fl_err)
qed

lemma column_rgb_left:
  fixes i :: int and ratio :: rat
  assumes i: "0 < i" "i < 600"
    and r: "\<bar>ratio - of_int i / 1200\<bar> \<le> 1 / 2 ^ 45"
    and nd: "\<not> 75 dvd i" "\<not> 200 dvd i"
  shows "column_rgb ratio =
           ((61200 - 88 * i) div 600, (75600 + 39 * i) div 600, (140400 - i) div 600)"
proof -
  define e :: rat where "e = 1 / 2 ^ 45"
  define t where "t = fmul ratio 2"
  have e: "0 \<le> e" "e < 1 / 1200" by (simp_all add: e_def)
  have rr: "\<bar>ratio - of_int i / 1200\<bar> \<le> e" using r by (simp add: e_def)
  have "(of_int i :: rat) \<le> 599" "(0 :: rat) \<le> of_int i" using i by simp_all
  then have \<rho>: "(of_int i :: rat) / 1200 \<le> 599 / 1200" "(0 :: rat) \<le> of_int i / 1200"
    by simp_all
  have lt: "ratio < 1 / 2" using rr \<rho> e by linarith
  have "\<bar>ratio * 2\<bar> \<le> 256" using rr \<rho> e by linarith
  then have "\<bar>t - ratio * 2\<bar> \<le> e"
    unfolding t_def fmul_def by (rule fl_err_e [OF e_def])
  with rr e have "\<bar>t - of_int i / 600\<bar> \<le> 5 * e" by linarith
  then have t: "\<bar>t - of_int i / 600\<bar> \<le> 5 / 2 ^ 45" by (simp add: e_def)
  have i0: "0 \<le> i" using i by simp
  have n1: "\<not> 600 dvd (14 - 102) * i"
    using not_dvd_scaled [of 8 "- 11" "- 41" 6 75 i] nd(1) by simp
  have n2: "\<not> 600 dvd (165 - 126) * i"
    using not_dvd_scaled [of 3 13 77 5 200 i] nd(2) by simp
  have n3: "\<not> 600 dvd (233 - 234) * i"
    using i by (simp add: zdvd_not_zless)
  have "lerp_channel 102 14 t = (600 * 102 + (14 - 102) * i) div 600"
    by (rule lerp_channel_exact [OF _ _ _ _ i0 i(2) t n1]) simp_all
  moreover have "lerp_channel 126 165 t = (600 * 126 + (165 - 126) * i) div 600"
    by (rule lerp_channel_exact [OF _ _ _ _ i0 i(2) t n2]) simp_all
  moreover have "lerp_channel 234 233 t = (600 * 234 + (233 - 234) * i) div 600"
    by (rule lerp_channel_exact [OF _ _ _ _ i0 i(2) t n3]) simp_all
  ultimately show ?thesis
    using lt by (simp add: column_rgb_def t_def [symmetric])
qed

lemma column_rgb_right:
  fixes i :: int and ratio :: rat
  assumes i: "600 < i" "i < 1200"
    and r: "\<bar>ratio - of_int i / 1200\<bar> \<le> 1 / 2 ^ 45"
    and nd: "\<not> 60 dvd i" "\<not> 200 dvd i"
  shows "column_rgb ratio =
           ((8400 + 230 * (i - 600)) div 600, (99000 - 51 * (i - 600)) div 600,
            (139800 - 51 * (i - 600)) div 600)"
proof -
  define e :: rat where "e = 1 / 2 ^ 45"
  define j where "j = i - 600"
  define d where "d = fsub ratio (1 / 2)"
  define t where "t = fmul d 2"
  have e: "0 \<le> e" "e < 1 / 1200" by (simp_all add: e_def)
  have rr: "\<bar>ratio - of_int i / 1200\<bar> \<le> e" using r by (simp add: e_def)
  have "(601 :: rat) \<le> of_int i" "(of_int i :: rat) \<le> 1200" using i by simp_all
  then have \<rho>: "(601 :: rat) / 1200 \<le> of_int i / 1200" "(of_int i :: rat) / 1200 \<le> 1"
    by simp_all
  have ge: "\<not> ratio < 1 / 2" using rr \<rho> e by linarith
  have "\<bar>ratio - 1 / 2\<bar> \<le> 256" using rr \<rho> e by linarith
  then have ed: "\<bar>d - (ratio - 1 / 2)\<bar> \<le> e"
    unfolding d_def fsub_def by (rule fl_err_e [OF e_def])
  have "\<bar>d * 2\<bar> \<le> 256" using ed rr \<rho> e by linarith
  then have et: "\<bar>t - d * 2\<bar> \<le> e"
    unfolding t_def fmul_def by (rule fl_err_e [OF e_def])
  define J :: rat where "J = of_int j / 600"
  define R :: rat where "R = of_int i / 1200"
  have JR: "J = 2 * R - 1" by (simp add: J_def R_def j_def field_simps)
  have "\<bar>d - (ratio - 1 / 2)\<bar> \<le> e" "\<bar>ratio - R\<bar> \<le> e"
    using ed rr by (simp_all add: R_def)
  with et JR have "\<bar>t - J\<bar> \<le> 5 * e" by linarith
  then have t: "\<bar>t - of_int j / 600\<bar> \<le> 5 / 2 ^ 45" by (simp add: e_def J_def)
  have j: "0 \<le> j" "j < 600" using i by (simp_all add: j_def)
  have ij: "i = j + 60 * 10" "i = j + 200 * 3" by (simp_all add: j_def)
  have "60 dvd i" if "60 dvd j"
    using that by (subst ij(1)) (rule dvd_add, simp_all)
  moreover have "200 dvd i" if "200 dvd j"
    using that by (subst ij(2)) (rule dvd_add, simp_all)
  ultimately have "60 dvd j \<Longrightarrow> 60 dvd i" "200 dvd j \<Longrightarrow> 200 dvd i" by blast+
  with nd have ndj: "\<not> 60 dvd j" "\<not> 200 dvd j" by blast+
  have n1: "\<not> 600 dvd (244 - 14) * j"
    using not_dvd_scaled [of 10 23 47 18 60 j] ndj(1) by simp
  have n2: "\<not> 600 dvd (114 - 165) * j"
    using not_dvd_scaled [of 3 "- 17" "- 153" 13 200 j] ndj(2) by simp
  have n3: "\<not> 600 dvd (182 - 233) * j"
    using not_dvd_scaled [of 3 "- 17" "- 153" 13 200 j] ndj(2) by simp
  have "lerp_channel 14 244 t = (600 * 14 + (244 - 14) * j) div 600"
    by (rule lerp_channel_exact [OF _ _ _ _ j t n1]) simp_all
  moreover have "lerp_channel 165 114 t = (600 * 165 + (114 - 165) * j) div 600"
    by (rule lerp_channel_exact [OF _ _ _ _ j t n2]) simp_all
  moreover have "lerp_channel 233 182 t = (600 * 233 + (182 - 233) * j) div 600"
    by (rule lerp_channel_exact [OF _ _ _ _ j t n3]) simp_all
  ultimately show ?thesis
    using ge by (simp add: column_rgb_def t_def [symmetric] d_def [symmetric] j_def)
qed

lemma spec_colour_closed:
  fixes i :: int
  assumes i: "0 \<le> i" "i < 1200"
  shows "spec_colour 1200 i =
           (if i < 600
            then ((61200 - 88 * i) div 600, (75600 + 39 * i) div 600, (140400 - i) div 600)
            else ((8400 + 230 * (i - 600)) div 600, (99000 - 51 * (i - 600)) div 600,
                  (139800 - 51 * (i - 600)) div 600))"
proof (cases "i < 600")
  case True
  have t: "2 * ((of_int i :: rat) / 1200) = of_int i / 600" by simp
  have "(of_int i :: rat) / 1200 < 1 / 2" using True by simp
  moreover have "spec_lerp 102 14 (of_int i / 600) = (600 * 102 + (14 - 102) * i) div 600"
    using i True by (intro spec_lerp_eq) simp_all
  moreover have "spec_lerp 126 165 (of_int i / 600) = (600 * 126 + (165 - 126) * i) div 600"
    using i True by (intro spec_lerp_eq) simp_all
  moreover have "spec_lerp 234 233 (of_int i / 600) = (600 * 234 + (233 - 234) * i) div 600"
    using i True by (intro spec_lerp_eq) simp_all
  ultimately show ?thesis using True by (simp add: spec_colour_def t)
next
  case False
  define j where "j = i - 600"
  have j: "0 \<le> j" "j < 600" using i False by (simp_all add: j_def)
  have t: "(of_int i :: rat) / 600 - 1 = of_int j / 600"
    by (simp add: j_def field_simps)
  have c1: "spec_lerp 14 244 (of_int j / 600) = (600 * 14 + (244 - 14) * j) div 600"
    using j by (intro spec_lerp_eq) simp_all
  have c2: "spec_lerp 165 114 (of_int j / 600) = (600 * 165 + (114 - 165) * j) div 600"
    using j by (intro spec_lerp_eq) simp_all
  have c3: "spec_lerp 233 182 (of_int j / 600) = (600 * 233 + (182 - 233) * j) div 600"
    using j by (intro spec_lerp_eq) simp_all
  have "spec_colour 1200 i =
          (spec_lerp 14 244 (of_int j / 600), spec_lerp 165 114 (of_int j / 600),
           spec_lerp 233 182 (of_int j / 600))"
    using False by (simp add: spec_colour_def Let_def t)
  also have "\<dots> = ((600 * 14 + (244 - 14) * j) div 600, (600 * 165 + (114 - 165) * j) div 600,
                      (600 * 233 + (182 - 233) * j) div 600)"
    by (simp only: c1 c2 c3)
  finally show ?thesis using False by (simp add: j_def)
qed

subsection \<open>Columns where an exact channel value is an integer\<close>

text \<open>
  The error bounds decide the truncation wherever the exact value is not an integer.
  On the 36 columns divisible by 60, 75 or 200 some exact value is an integer, and the
  doubles are evaluated.
\<close>

lemma special_columns_1:
  "gradient_column 1200 0 = (102, 126, 234, 35) \<and>
   gradient_column 1200 60 = (93, 129, 233, 34) \<and>
   gradient_column 1200 75 = (91, 130, 233, 33) \<and>
   gradient_column 1200 120 = (84, 133, 233, 33) \<and>
   gradient_column 1200 150 = (80, 135, 233, 32) \<and>
   gradient_column 1200 180 = (75, 137, 233, 32)"
  by (simp add: prog_eval fl_eval)

lemma special_columns_2:
  "gradient_column 1200 200 = (72, 139, 233, 31) \<and>
   gradient_column 1200 225 = (69, 140, 233, 31) \<and>
   gradient_column 1200 240 = (66, 141, 233, 31) \<and>
   gradient_column 1200 300 = (58, 145, 233, 30) \<and>
   gradient_column 1200 360 = (49, 149, 233, 29) \<and>
   gradient_column 1200 375 = (47, 150, 233, 28)"
  by (simp add: prog_eval fl_eval)

lemma special_columns_3:
  "gradient_column 1200 400 = (43, 152, 233, 28) \<and>
   gradient_column 1200 420 = (40, 153, 233, 28) \<and>
   gradient_column 1200 450 = (36, 155, 233, 27) \<and>
   gradient_column 1200 480 = (31, 157, 233, 27) \<and>
   gradient_column 1200 525 = (25, 160, 233, 26) \<and>
   gradient_column 1200 540 = (22, 161, 233, 26)"
  by (simp add: prog_eval fl_eval)

lemma special_columns_4:
  "gradient_column 1200 600 = (14, 165, 233, 25) \<and>
   gradient_column 1200 660 = (37, 159, 227, 26) \<and>
   gradient_column 1200 675 = (42, 158, 226, 26) \<and>
   gradient_column 1200 720 = (59, 154, 222, 27) \<and>
   gradient_column 1200 750 = (71, 152, 220, 27) \<and>
   gradient_column 1200 780 = (83, 149, 217, 28)"
  by (simp add: prog_eval fl_eval)

lemma special_columns_5:
  "gradient_column 1200 800 = (90, 148, 216, 28) \<and>
   gradient_column 1200 825 = (100, 145, 213, 28) \<and>
   gradient_column 1200 840 = (105, 144, 212, 29) \<and>
   gradient_column 1200 900 = (129, 139, 207, 30) \<and>
   gradient_column 1200 960 = (152, 134, 202, 31) \<and>
   gradient_column 1200 975 = (157, 133, 201, 31)"
  by (simp add: prog_eval fl_eval)

lemma special_columns_6:
  "gradient_column 1200 1000 = (167, 131, 199, 31) \<and>
   gradient_column 1200 1020 = (175, 129, 197, 32) \<and>
   gradient_column 1200 1050 = (186, 126, 194, 32) \<and>
   gradient_column 1200 1080 = (198, 124, 192, 33) \<and>
   gradient_column 1200 1125 = (215, 120, 188, 33) \<and>
   gradient_column 1200 1140 = (220, 119, 187, 34)"
  by (simp add: prog_eval fl_eval)



lemma gradient_column_regular:
  fixes i :: int
  assumes i: "0 \<le> i" "i < 1200"
    and nd: "\<not> 60 dvd i" "\<not> 75 dvd i" "\<not> 200 dvd i"
  shows "gradient_column 1200 i =
           (case spec_colour 1200 i of (r, g, b) \<Rightarrow> (r, g, b, 25 + \<bar>i - 600\<bar> div 60))"
proof -
  define ratio where "ratio = fdiv (of_int i) 1200"
  have r: "\<bar>ratio - of_int i / 1200\<bar> \<le> 1 / 2 ^ 45"
    unfolding ratio_def using i by (rule ratio_close)
  have a: "column_alpha ratio = 25 + \<bar>i - 600\<bar> div 60"
    using i r nd(1) by (rule column_alpha_exact)
  have i0: "i \<noteq> 0" "i \<noteq> 600" using nd(1) by auto
  have "column_rgb ratio = spec_colour 1200 i"
  proof (cases "i < 600")
    case True
    with i i0 have "0 < i" by simp
    then show ?thesis
      using True column_rgb_left [OF _ True r nd(2,3)] spec_colour_closed [OF i] by simp
  next
    case False
    with i0 have "600 < i" by simp
    then show ?thesis
      using False column_rgb_right [OF _ i(2) r nd(1,3)] spec_colour_closed [OF i] by simp
  qed
  then show ?thesis
    by (simp add: gradient_column_def ratio_def [symmetric] a split: prod.split)
qed

lemma special_60:
  "\<forall>k \<in> set [0..19]. gradient_column 1200 (60 * k) =
           (case spec_colour 1200 (60 * k) of
              (r, g, b) \<Rightarrow> (if 60 * k \<in> {720, 840, 1140} then r - 1 else r, g, b,
                            25 + \<bar>60 * k - 600\<bar> div 60))"
  by (simp del: set_upto add: upto_rec1
        special_columns_1 special_columns_2 special_columns_3 special_columns_4
        special_columns_5 special_columns_6 spec_colour_closed)

lemma special_75:
  "\<forall>k \<in> set [0..15]. gradient_column 1200 (75 * k) =
           (case spec_colour 1200 (75 * k) of
              (r, g, b) \<Rightarrow> (if 75 * k \<in> {720, 840, 1140} then r - 1 else r, g, b,
                            25 + \<bar>75 * k - 600\<bar> div 60))"
  by (simp del: set_upto add: upto_rec1
        special_columns_1 special_columns_2 special_columns_3 special_columns_4
        special_columns_5 special_columns_6 spec_colour_closed)

lemma special_200:
  "\<forall>k \<in> set [0..5]. gradient_column 1200 (200 * k) =
           (case spec_colour 1200 (200 * k) of
              (r, g, b) \<Rightarrow> (if 200 * k \<in> {720, 840, 1140} then r - 1 else r, g, b,
                            25 + \<bar>200 * k - 600\<bar> div 60))"
  by (simp del: set_upto add: upto_rec1
        special_columns_1 special_columns_2 special_columns_3 special_columns_4
        special_columns_5 special_columns_6 spec_colour_closed)

lemma gradient_column_char:
  fixes i :: int
  assumes i: "0 \<le> i" "i < 1200"
  shows "gradient_column 1200 i =
           (case spec_colour 1200 (i) of
              (r, g, b) \<Rightarrow> (if i \<in> {720, 840, 1140} then r - 1 else r, g, b,
                            25 + \<bar>i - 600\<bar> div 60))"
proof -
  consider (a) "60 dvd i" | (b) "75 dvd i" | (c) "200 dvd i"
    | (r) "\<not> 60 dvd i" "\<not> 75 dvd i" "\<not> 200 dvd i" by blast
  then show ?thesis
  proof cases
    case a
    then obtain k where k: "i = 60 * k" ..
    with i have "k \<in> set [0..19]" by simp
    with special_60 show ?thesis unfolding k by blast
  next
    case b
    then obtain k where k: "i = 75 * k" ..
    with i have "k \<in> set [0..15]" by simp
    with special_75 show ?thesis unfolding k by blast
  next
    case c
    then obtain k where k: "i = 200 * k" ..
    with i have "k \<in> set [0..5]" by simp
    with special_200 show ?thesis unfolding k by blast
  next
    case r
    then have "i \<notin> {720, 840, 1140}" by auto
    then show ?thesis using gradient_column_regular [OF i r] by simp
  qed
qed

subsection \<open>The alpha ramp of the gradient\<close>

lemma column_0: "gradient_column 1200 0 = (102, 126, 234, 35)"
  by (simp add: prog_eval fl_eval)

lemma column_600: "gradient_column 1200 600 = (14, 165, 233, 25)"
  by (simp add: prog_eval fl_eval)

lemma column_1199: "gradient_column 1200 1199 = (243, 114, 182, 34)"
  by (simp add: prog_eval fl_eval)

text \<open>
  C1. The claim is that the alpha of the centre column is at least the alpha of the
  leftmost and of the rightmost column. The code computes the opposite ramp: alpha is 25
  at the centre column 600, 35 at column 0 and 34 at column 1199, although line 94 is
  commented "More opaque in center".
\<close>

theorem center_alpha_below_edges:
  "alpha_of (gradient_column 1200 600) = 25 \<and>
   alpha_of (gradient_column 1200 0) = 35 \<and>
   alpha_of (gradient_column 1200 1199) = 34 \<and>
   alpha_of (gradient_column 1200 600) < alpha_of (gradient_column 1200 0) \<and>
   alpha_of (gradient_column 1200 600) < alpha_of (gradient_column 1200 1199)"
  by (simp add: column_0 column_600 column_1199 alpha_of_def)

subsection \<open>Icons: the alpha channel\<close>

lemmas icon_eval = draw_icon_calls_def offs_def stroke_def band_stroke_def

lemma rne_nonneg: "0 \<le> y \<Longrightarrow> 0 \<le> rne y"
proof -
  assume "0 \<le> y"
  then have "0 \<le> \<lfloor>y\<rfloor>" by simp
  then show ?thesis by (simp add: rne_def)
qed

lemma fl_nonneg: "0 \<le> x \<Longrightarrow> 0 \<le> fl x"
proof (cases "x = 0")
  case True
  then show ?thesis by (simp add: fl_def)
next
  case False
  assume "0 \<le> x"
  then have "0 \<le> x / pow2 q" for q using pow2_pos [of q] by simp
  then have "0 \<le> rne (x / pow2 q)" for q by (rule rne_nonneg)
  then have "0 \<le> round_at q x" for q
    using pow2_pos [of q] by (simp add: round_at_def)
  then show ?thesis using False by (simp add: fl_def)
qed

lemma draw_icon_calls_colour:
  assumes "c \<in> set (draw_icon_calls x y sz icon_type (r, g, b) opacity)"
  shows "call_colour c = (r, g, b, py_int (fmul opacity 255))"
  using assms by (auto simp: draw_icon_calls_def Let_def split: if_splits)

text \<open>
  C4, as the code has it. For every opacity in \<open>[0, 1]\<close>, the alpha of every call of
  \<open>draw_icon\<close> is \<open>int(opacity * 255)\<close>, the double product truncated: it lies in
  \<open>[0, 255]\<close>, and, up to the rounding error \<open>2^-45\<close> of the product, it is the largest
  integer not above \<open>opacity * 255\<close>. It is not the nearest integer.
\<close>

theorem icon_alpha_truncates:
  assumes o: "0 \<le> opacity" "opacity \<le> 1"
    and c: "c \<in> set (draw_icon_calls x y sz icon_type (r, g, b) opacity)"
  shows "alpha_of (call_colour c) = \<lfloor>fmul opacity 255\<rfloor> \<and>
         0 \<le> alpha_of (call_colour c) \<and> alpha_of (call_colour c) \<le> 255 \<and>
         of_int (alpha_of (call_colour c)) \<le> opacity * 255 + 1 / 2 ^ 45 \<and>
         opacity * 255 - 1 / 2 ^ 45 < of_int (alpha_of (call_colour c)) + 1"
proof -
  define e :: rat where "e = 1 / 2 ^ 45"
  define p where "p = fmul opacity 255"
  define a where "a = \<lfloor>p\<rfloor>"
  have e: "0 \<le> e" "e < 1" by (simp_all add: e_def)
  have q: "0 \<le> opacity * 255" "opacity * 255 \<le> 255" using o by simp_all
  then have "\<bar>opacity * 255\<bar> \<le> 256" by simp
  then have err: "\<bar>p - opacity * 255\<bar> \<le> e"
    unfolding p_def fmul_def by (rule fl_err_e [OF e_def])
  have p0: "0 \<le> p" unfolding p_def fmul_def using o by (intro fl_nonneg) simp
  have "alpha_of (call_colour c) = py_int p"
    using draw_icon_calls_colour [OF c] by (simp add: alpha_of_def p_def)
  then have a: "alpha_of (call_colour c) = a" using p0 by (simp add: py_int_def a_def)
  have fl: "of_int a \<le> p" "p < of_int a + 1" unfolding a_def by linarith+
  have "p < 256" using err q e by linarith
  then have "a < 256" unfolding a_def by (simp add: floor_less_iff)
  moreover have "0 \<le> a" using p0 by (simp add: a_def)
  moreover have "of_int a \<le> opacity * 255 + e" "opacity * 255 - e < of_int a + 1"
    using fl err by linarith+
  ultimately show ?thesis unfolding a e_def by (simp add: a_def p_def)
qed

text \<open>
  The theorem at the eighth icon of \<open>icon_positions\<close>, of opacity 0.10: alpha is 25. At the
  fifth icon, of opacity 0.15, alpha is 38.
\<close>

theorem icon_alpha_truncates_witness:
  "0 \<le> fl (1 / 10) \<and> fl (1 / 10) \<le> 1 \<and>
   hd (draw_icon_calls 1100 250 32 ''chip'' (14, 165, 233) (fl (1 / 10)))
     \<in> set (draw_icon_calls 1100 250 32 ''chip'' (14, 165, 233) (fl (1 / 10))) \<and>
   alpha_of (call_colour (hd (draw_icon_calls 1100 250 32 ''chip'' (14, 165, 233) (fl (1 / 10)))))
     = 25 \<and>
   alpha_of (call_colour (hd (draw_icon_calls 280 150 24 ''chip'' (14, 165, 233) (fl (15 / 100)))))
     = 38"
  using icon_alpha_truncates [of "fl (1 / 10)"
      "hd (draw_icon_calls 1100 250 32 ''chip'' (14, 165, 233) (fl (1 / 10)))"
      1100 250 32 "''chip''" 14 165 233]
  by (simp add: draw_icon_calls_def prog_eval fl_eval alpha_of_def)

text \<open>
  C4, as it is stated, fails at opacity 0.10: \<open>0.10 * 255 = 25.5\<close>, \<open>int\<close> gives 25 and
  rounding to nearest gives 26.
\<close>

theorem icon_alpha_not_rounded:
  "alpha_of (call_colour (hd (draw_icon_calls 1100 250 32 ''chip'' (14, 165, 233) (fl (1 / 10)))))
     = 25 \<and>
   spec_icon_alpha (fl (1 / 10)) = 26"
  by (simp add: draw_icon_calls_def prog_eval fl_eval alpha_of_def spec_icon_alpha_def)

subsection \<open>Icons: the bounding square\<close>

text \<open>
  For ints of magnitude up to \<open>2^40\<close> the float arithmetic of the coordinates is exact.
\<close>

lemma scale_exact:
  fixes sz :: int
  assumes "\<bar>sz\<bar> \<le> 2 ^ 40"
  shows "fdiv (of_int sz) 64 = of_int sz / 64"
proof -
  have "\<bar>sz\<bar> < 2 ^ 53" using assms by simp
  then have "fl (of_int sz / 2 ^ 6) = of_int sz / 2 ^ 6" by (rule fl_dyadic) simp
  then show ?thesis by (simp add: fdiv_def)
qed

lemma fmul_scale_exact:
  fixes sz k :: int
  assumes sz: "0 \<le> sz" "sz \<le> 2 ^ 40" and k: "0 \<le> k" "k \<le> 64"
  shows "fmul (of_int k) (of_int sz / 64) = of_int (k * sz) / 64"
proof -
  have "k * sz \<le> 64 * 2 ^ 40" using sz k by (intro mult_mono) simp_all
  moreover have "0 \<le> k * sz" using sz k by simp
  ultimately have "\<bar>k * sz\<bar> < 2 ^ 53" by simp
  then have "fl (of_int (k * sz) / 2 ^ 6) = of_int (k * sz) / 2 ^ 6"
    by (rule fl_dyadic) simp
  then show ?thesis by (simp add: fmul_def)
qed

lemma offs_exact:
  fixes x sz k :: int
  assumes x: "\<bar>x\<bar> \<le> 2 ^ 40" and sz: "0 \<le> sz" "sz \<le> 2 ^ 40" and k: "0 \<le> k" "k \<le> 64"
  shows "offs x k (of_int sz / 64) = of_int x + of_int (k * sz) / 64"
proof -
  have "k * sz \<le> 64 * 2 ^ 40" using sz k by (intro mult_mono) simp_all
  moreover have "0 \<le> k * sz" using sz k by simp
  ultimately have "\<bar>64 * x + k * sz\<bar> < 2 ^ 53" using x by simp
  then have e: "fl (of_int (64 * x + k * sz) / 2 ^ 6) = of_int (64 * x + k * sz) / 2 ^ 6"
    by (rule fl_dyadic) simp
  have a: "of_int x + of_int (k * sz) / 64 = (of_int (64 * x + k * sz) :: rat) / 2 ^ 6"
    by (simp add: field_simps)
  have "offs x k (of_int sz / 64) = fl (of_int x + of_int (k * sz) / 64)"
    by (simp only: offs_def fadd_def fmul_scale_exact [OF sz k])
  also have "\<dots> = of_int x + of_int (k * sz) / 64"
    by (simp only: a e)
  finally show ?thesis .
qed

lemma offs_point_within:
  fixes x y sz k l :: int and m :: rat
  assumes x: "\<bar>x\<bar> \<le> 2 ^ 40" and y: "\<bar>y\<bar> \<le> 2 ^ 40" and sz: "0 \<le> sz" "sz \<le> 2 ^ 40"
    and k: "8 \<le> k" "k \<le> 56" and l: "8 \<le> l" "l \<le> 56"
    and m: "0 \<le> m" "m \<le> of_int sz / 8"
  shows "point_within x y sz m (offs x k (of_int sz / 64), offs y l (of_int sz / 64))"
proof -
  have kk: "0 \<le> k" "k \<le> 64" and ll: "0 \<le> l" "l \<le> 64" using k l by simp_all
  have "8 * sz \<le> k * sz" "k * sz \<le> 56 * sz" "8 * sz \<le> l * sz" "l * sz \<le> 56 * sz"
    using k l sz by (simp_all add: mult_right_mono)
  then have b: "(8 :: rat) * of_int sz \<le> of_int (k * sz)" "(of_int (k * sz) :: rat) \<le> 56 * of_int sz"
    "(8 :: rat) * of_int sz \<le> of_int (l * sz)" "(of_int (l * sz) :: rat) \<le> 56 * of_int sz"
    by (metis of_int_le_iff of_int_mult of_int_numeral)+
  have "of_int x \<le> of_int x + of_int (k * sz) / 64 - m"
    "of_int x + of_int (k * sz) / 64 + m \<le> of_int x + of_int sz"
    "of_int y \<le> of_int y + of_int (l * sz) / 64 - m"
    "of_int y + of_int (l * sz) / 64 + m \<le> of_int y + of_int sz"
    using b m by linarith+
  then show ?thesis
    by (simp only: point_within_def prod.case offs_exact [OF x sz kk] offs_exact [OF y sz ll]
                   of_int_add simp_thms)
qed


lemma offs_point_within0:
  fixes x y sz k l :: int
  assumes "\<bar>x\<bar> \<le> 2 ^ 40" "\<bar>y\<bar> \<le> 2 ^ 40" "0 \<le> sz" "sz \<le> 2 ^ 40"
    and "8 \<le> k" "k \<le> 56" "8 \<le> l" "l \<le> 56"
  shows "point_within x y sz 0 (offs x k (of_int sz / 64), offs y l (of_int sz / 64))"
  using assms by (intro offs_point_within) simp_all

lemma offs_point_within_w:
  fixes x y sz k l w :: int
  assumes "\<bar>x\<bar> \<le> 2 ^ 40" "\<bar>y\<bar> \<le> 2 ^ 40" "0 \<le> sz" "sz \<le> 2 ^ 40"
    and "8 \<le> k" "k \<le> 56" "8 \<le> l" "l \<le> 56"
    and w: "0 \<le> w" "4 * w \<le> sz"
  shows "point_within x y sz (of_int w / 2) (offs x k (of_int sz / 64), offs y l (of_int sz / 64))"
proof -
  have "(of_int (4 * w) :: rat) \<le> of_int sz" using w(2) by (simp only: of_int_le_iff)
  then have "(of_int w :: rat) / 2 \<le> of_int sz / 8" by simp
  moreover have "(0 :: rat) \<le> of_int w / 2" using w(1) by simp
  ultimately show ?thesis using assms(1-8) by (intro offs_point_within)
qed

lemma py_int_scaled:
  fixes sz :: int
  assumes "0 \<le> sz"
  shows "py_int (of_int sz / 64) = sz div 64" and "py_int (of_int sz / 32) = sz div 32"
proof -
  have "(of_int sz :: rat) / 64 = of_int sz / of_int 64" "(of_int sz :: rat) / 32 = of_int sz / of_int 32"
    by simp_all
  then show "py_int (of_int sz / 64) = sz div 64" "py_int (of_int sz / 32) = sz div 32"
    using assms by (simp_all only: py_int_def floor_divide_of_int_eq) simp_all
qed

lemma stroke_exact:
  fixes sz :: int
  assumes "0 \<le> sz" "sz \<le> 2 ^ 40"
  shows "stroke (of_int sz / 64) = max 1 (sz div 32)"
proof -
  have "\<bar>sz\<bar> < 2 ^ 53" using assms by simp
  then have "fl (of_int sz / 2 ^ 5) = of_int sz / 2 ^ 5" by (rule fl_dyadic) simp
  then have f: "fmul 2 (of_int sz / 64) = of_int sz / 32" by (simp add: fmul_def)
  show ?thesis by (simp only: stroke_def f py_int_scaled(2) [OF assms(1)])
qed

lemma stroke_le:
  fixes sz :: int
  assumes "4 \<le> sz" "sz \<le> 2 ^ 40"
  shows "0 \<le> stroke (of_int sz / 64)" "4 * stroke (of_int sz / 64) \<le> sz"
proof -
  have s: "stroke (of_int sz / 64) = max 1 (sz div 32)" using assms by (intro stroke_exact) simp_all
  have "32 * (sz div 32) + sz mod 32 = sz" "0 \<le> sz mod 32" by simp_all
  then have "32 * (sz div 32) \<le> sz" by linarith
  then have "4 * (sz div 32) \<le> sz" using assms by linarith
  then show "0 \<le> stroke (of_int sz / 64)" "4 * stroke (of_int sz / 64) \<le> sz"
    using assms by (simp_all add: s max_def)
qed

lemma band_le:
  fixes sz :: int
  assumes "4 \<le> sz"
  shows "0 \<le> band_stroke (of_int sz / 64)" "4 * band_stroke (of_int sz / 64) \<le> sz"
proof -
  have s: "py_int (of_int sz / 64) = sz div 64" using assms by (intro py_int_scaled) simp
  have "64 * (sz div 64) + sz mod 64 = sz" "0 \<le> sz mod 64" by simp_all
  then have "64 * (sz div 64) \<le> sz" by linarith
  then have "4 * (sz div 64) \<le> sz" using assms by linarith
  then show "0 \<le> band_stroke (of_int sz / 64)" "4 * band_stroke (of_int sz / 64) \<le> sz"
    using assms by (simp_all add: band_stroke_def s max_def)
qed

text \<open>
  C3, as the code has it. For every icon type, every anchor and every size \<open>> 0\<close> (ints of
  magnitude up to \<open>2^40\<close>), all coordinates of every call of \<open>draw_icon\<close> lie in the square
  \<open>[x, x + size] \<times> [y, y + size]\<close>; widened by half the stroke width they do when
  \<open>size \<ge> 4\<close>.
\<close>

theorem icon_within_square:
  fixes x y sz :: int
  assumes sz: "0 < sz" "sz \<le> 2 ^ 40" and x: "\<bar>x\<bar> \<le> 2 ^ 40" and y: "\<bar>y\<bar> \<le> 2 ^ 40"
  shows "points_within x y sz (draw_icon_calls x y sz icon_type color opacity) \<and>
         (4 \<le> sz \<longrightarrow> strokes_within x y sz (draw_icon_calls x y sz icon_type color opacity))"
proof -
  have sz0: "0 \<le> sz" using sz by simp
  have sc: "fdiv (of_int sz) 64 = of_int sz / 64" using sz by (intro scale_exact) simp
  have p: "point_within x y sz 0 (offs x k (of_int sz / 64), offs y l (of_int sz / 64))"
    if "8 \<le> k" "k \<le> 56" "8 \<le> l" "l \<le> 56" for k l
    using x y sz0 sz(2) that by (rule offs_point_within0)
  have 1: "points_within x y sz (draw_icon_calls x y sz icon_type color opacity)"
    by (simp add: points_within_def draw_icon_calls_def Let_def sc p)
  have 2: "strokes_within x y sz (draw_icon_calls x y sz icon_type color opacity)" if "4 \<le> sz"
  proof -
    have q: "point_within x y sz (of_int (stroke (of_int sz / 64)) / 2)
               (offs x k (of_int sz / 64), offs y l (of_int sz / 64))"
      if "8 \<le> k" "k \<le> 56" "8 \<le> l" "l \<le> 56" for k l
      using x y sz0 sz(2) that stroke_le [OF \<open>4 \<le> sz\<close> sz(2)] by (rule offs_point_within_w)
    have r: "point_within x y sz (of_int (band_stroke (of_int sz / 64)) / 2)
               (offs x k (of_int sz / 64), offs y l (of_int sz / 64))"
      if "8 \<le> k" "k \<le> 56" "8 \<le> l" "l \<le> 56" for k l
      using x y sz0 sz(2) that band_le [OF \<open>4 \<le> sz\<close>] by (rule offs_point_within_w)
    show ?thesis
      by (simp add: strokes_within_def draw_icon_calls_def Let_def sc q r)
  qed
  from 1 2 show ?thesis by blast
qed

text \<open>The theorem at the first icon of \<open>icon_positions\<close>: a chip of size 48 at (80, 80).\<close>

theorem icon_within_square_witness:
  "(0 :: int) < 48 \<and> (48 :: int) \<le> 2 ^ 40 \<and> \<bar>80 :: int\<bar> \<le> 2 ^ 40 \<and> (4 :: int) \<le> 48 \<and>
   points_within 80 80 48 (draw_icon_calls 80 80 48 ''chip'' (102, 126, 234) (fl (8 / 100))) \<and>
   strokes_within 80 80 48 (draw_icon_calls 80 80 48 ''chip'' (102, 126, 234) (fl (8 / 100)))"
  using icon_within_square [of 48 80 80 "''chip''" "(102, 126, 234)" "fl (8 / 100)"] by simp

text \<open>
  C3, as it is stated, fails at size 1: the first pin of the chip is a vertical line at
  \<open>x + 5/16\<close> of width 1 (the floor of the stroke width), which reaches \<open>3/16\<close> to the left
  of the square.
\<close>

theorem chip_size_1_leaves_square:
  "draw_icon_calls 0 0 1 ''chip'' (102, 126, 234) (fl (8 / 100)) ! 2
     = Line [(5 / 16, 3 / 16), (5 / 16, 1 / 4)] (102, 126, 234, 20) 1 NoJoint \<and>
   \<not> strokes_within 0 0 1 (draw_icon_calls 0 0 1 ''chip'' (102, 126, 234) (fl (8 / 100)))"
  by (simp add: icon_eval prog_eval fl_eval strokes_within_def point_within_def)

subsection \<open>The colour of the gradient\<close>

text \<open>
  C7, as the code has it. For every column \<open>i\<close> of the 1200 the overlay colour is the
  two-colour linear interpolation of the specification (purple to cyan with \<open>t = 2r\<close> for
  \<open>r < 0.5\<close>, cyan to pink with \<open>t = 2(r - 0.5)\<close> otherwise), each channel truncated to an
  integer, except at the columns 720, 840 and 1140: there the exact red value is an
  integer, the double product \<open>230 * t\<close> falls just below it, and the red channel is one
  less.
\<close>

theorem gradient_colour_interpolation:
  fixes i :: int
  assumes "0 \<le> i" and "i < 1200"
  shows "rgb_of (gradient_column 1200 i) =
           (case spec_colour 1200 i of
              (r, g, b) \<Rightarrow> (if i \<in> {720, 840, 1140} then r - 1 else r, g, b))"
  using gradient_column_char [OF assms] by (simp add: rgb_of_def split: prod.split)

text \<open>The theorem at column 100, where both sides are \<open>(87, 132, 233)\<close>.\<close>

theorem gradient_colour_interpolation_witness:
  "(0 :: int) \<le> 100 \<and> (100 :: int) < 1200 \<and>
   rgb_of (gradient_column 1200 100) = spec_colour 1200 100 \<and>
   spec_colour 1200 100 = (87, 132, 233)"
  using gradient_colour_interpolation [of 100] by (simp add: spec_colour_closed)

text \<open>
  C7, as it is stated, fails at column 720: the exact interpolation gives red
  \<open>14 + 230 * 0.2 = 60\<close>, the code computes \<open>int(59.99999999999999) = 59\<close>.
\<close>

theorem column_720_below_interpolation:
  "rgb_of (gradient_column 1200 720) = (59, 154, 222) \<and> spec_colour 1200 720 = (60, 154, 222)"
  by (simp add: special_columns_4 rgb_of_def spec_colour_closed)

subsection \<open>The gradient colours are valid 8-bit colours\<close>

lemma div600_range:
  fixes x :: int
  assumes "0 \<le> x" and "x \<le> 153599"
  shows "0 \<le> x div 600 \<and> x div 600 \<le> 255"
  using assms zdiv_mono1 [of x 153599 600] by simp

text \<open>
  C10. For every column \<open>i\<close> of the 1200, each of the channels \<open>r\<close>, \<open>g\<close>, \<open>b\<close> of the
  gradient colour lies in \<open>[0, 255]\<close> and the alpha lies in \<open>[25, 35]\<close>, so the overlay is
  never opaque.
\<close>

theorem gradient_column_valid:
  fixes i :: int
  assumes "0 \<le> i" and "i < 1200"
  shows "case gradient_column 1200 i of
           (r, g, b, a) \<Rightarrow> 0 \<le> r \<and> r \<le> 255 \<and> 0 \<le> g \<and> g \<le> 255 \<and> 0 \<le> b \<and> b \<le> 255 \<and>
                         25 \<le> a \<and> a \<le> 35"
proof -
  have "\<bar>i - 600\<bar> \<le> 600" using assms by simp
  then have "\<bar>i - 600\<bar> div 60 \<le> 600 div 60" by (intro zdiv_mono1) simp_all
  then have a: "0 \<le> \<bar>i - 600\<bar> div 60" "\<bar>i - 600\<bar> div 60 \<le> 10"
    by (simp_all add: pos_imp_zdiv_nonneg_iff)
  show ?thesis
  proof (cases "i < 600")
    case True
    then have n: "i \<notin> {720, 840, 1140}" by auto
    have r: "0 \<le> (61200 - 88 * i) div 600 \<and> (61200 - 88 * i) div 600 \<le> 255"
      using assms True by (intro div600_range) simp_all
    have g: "0 \<le> (75600 + 39 * i) div 600 \<and> (75600 + 39 * i) div 600 \<le> 255"
      using assms True by (intro div600_range) simp_all
    have b: "0 \<le> (140400 - i) div 600 \<and> (140400 - i) div 600 \<le> 255"
      using assms True by (intro div600_range) simp_all
    have "gradient_column 1200 i =
            ((61200 - 88 * i) div 600, (75600 + 39 * i) div 600, (140400 - i) div 600,
             25 + \<bar>i - 600\<bar> div 60)"
      using gradient_column_char [OF assms] spec_colour_closed [OF assms] True n
      by (simp only: if_True if_False prod.case)
    with r g b a show ?thesis by (simp only: prod.case) simp
  next
    case False
    define j where "j = i - 600"
    have j: "0 \<le> j" "j < 600" using assms False by (simp_all add: j_def)
    have r: "0 \<le> (8400 + 230 * j) div 600 \<and> (8400 + 230 * j) div 600 \<le> 255"
      using j by (intro div600_range) simp_all
    have "8400 div 600 \<le> (8400 + 230 * j) div 600"
      using j by (intro zdiv_mono1) simp_all
    then have r1: "1 \<le> (8400 + 230 * j) div 600" by simp
    have g: "0 \<le> (99000 - 51 * j) div 600 \<and> (99000 - 51 * j) div 600 \<le> 255"
      using j by (intro div600_range) simp_all
    have b: "0 \<le> (139800 - 51 * j) div 600 \<and> (139800 - 51 * j) div 600 \<le> 255"
      using j by (intro div600_range) simp_all
    have "gradient_column 1200 i =
            ((if i \<in> {720, 840, 1140} then (8400 + 230 * j) div 600 - 1
              else (8400 + 230 * j) div 600),
             (99000 - 51 * j) div 600, (139800 - 51 * j) div 600, 25 + \<bar>i - 600\<bar> div 60)"
      using gradient_column_char [OF assms] spec_colour_closed [OF assms] False
      by (simp only: if_False prod.case j_def)
    with r r1 g b a show ?thesis by (simp only: prod.case) simp
  qed
qed

text \<open>The theorem at column 100.\<close>

theorem gradient_column_valid_witness:
  "(0 :: int) \<le> 100 \<and> (100 :: int) < 1200 \<and>
   (case gradient_column 1200 100 of
      (r, g, b, a) \<Rightarrow> 0 \<le> r \<and> r \<le> 255 \<and> 0 \<le> g \<and> g \<le> 255 \<and> 0 \<le> b \<and> b \<le> 255 \<and>
                    25 \<le> a \<and> a \<le> 35)"
  using gradient_column_valid [of 100] by simp

subsection \<open>Icons: when draw\_icon returns\<close>

text \<open>A value below \<open>2 ^ 1023\<close> in magnitude rounds to a double: the operation does not overflow.\<close>

lemma fl_finite:
  assumes "\<bar>x\<bar> < 2 ^ 1023"
  shows "\<not> overflows (fl x)"
proof -
  have "\<bar>x\<bar> < pow2 (1022 + 1)" using assms by (simp add: pow2_def)
  then have "\<bar>fl x - x\<bar> \<le> pow2 (1022 - 53)" by (rule fl_error) simp
  then have "\<bar>fl x - x\<bar> \<le> 2 ^ 969" by (simp add: pow2_def)
  then have "\<bar>fl x\<bar> < 2 ^ 1023 + 2 ^ 969" using assms by linarith
  also have "\<dots> < (2 :: rat) ^ 1024" by simp
  finally show ?thesis by (simp add: overflows_def)
qed

text \<open>For a size below \<open>2 ^ 1000\<close> in magnitude, neither \<open>size / 64\<close> nor \<open>2 * s\<close> overflows.\<close>

lemma scale_finite:
  fixes sz :: int
  assumes "\<bar>sz\<bar> < 2 ^ 1000"
  shows "\<not> overflows (fdiv (of_int sz) 64)" and "\<not> overflows (fmul 2 (fdiv (of_int sz) 64))"
proof -
  define v :: rat where "v = of_int sz / 64"
  have "\<bar>of_int sz :: rat\<bar> < 2 ^ 1000"
    using assms by (metis of_int_abs of_int_less_numeral_power_cancel_iff)
  then have v: "\<bar>v\<bar> < 2 ^ 994" by (simp add: v_def)
  then have "\<bar>v\<bar> < 2 ^ 1023" by simp
  then show "\<not> overflows (fdiv (of_int sz) 64)" unfolding fdiv_def v_def by (rule fl_finite)
  have "\<bar>v\<bar> < pow2 (993 + 1)" using v by (simp add: pow2_def)
  then have "\<bar>fl v - v\<bar> \<le> pow2 (993 - 53)" by (rule fl_error) simp
  then have "\<bar>fl v - v\<bar> \<le> 2 ^ 940" by (simp add: pow2_def)
  then have "\<bar>fl v\<bar> < 2 ^ 994 + 2 ^ 940" using v by linarith
  then have "\<bar>2 * fl v\<bar> < 2 * (2 ^ 994 + 2 ^ 940)" by simp
  also have "\<dots> < (2 :: rat) ^ 1023" by simp
  finally show "\<not> overflows (fmul 2 (fdiv (of_int sz) 64))"
    unfolding fmul_def fdiv_def v_def by (rule fl_finite)
qed

text \<open>
  For an opacity of magnitude up to 1, a size below \<open>2 ^ 1000\<close> and an anchor below
  \<open>2 ^ 1023\<close> in magnitude, \<open>draw_icon\<close> raises nothing and makes the calls of
  \<open>draw_icon_calls\<close>.
\<close>

lemma draw_icon_returns:
  fixes x y sz :: int
  assumes "\<bar>opacity\<bar> \<le> 1" and "\<bar>sz\<bar> < 2 ^ 1000" and "\<bar>x\<bar> < 2 ^ 1023" and "\<bar>y\<bar> < 2 ^ 1023"
  shows "draw_icon draw x y sz icon_type color opacity h =
           Inr (foldl (\<lambda>h c. draw_on draw c h) h
                  (draw_icon_calls x y sz icon_type color opacity))"
proof -
  have "\<bar>opacity * 255\<bar> \<le> 255" using assms(1) by (simp add: abs_mult)
  then have "\<bar>opacity * 255\<bar> < 2 ^ 1023" by simp
  then have o: "\<not> overflows (fmul opacity 255)" unfolding fmul_def by (rule fl_finite)
  have "\<bar>of_int x :: rat\<bar> < 2 ^ 1023" "\<bar>of_int y :: rat\<bar> < 2 ^ 1023"
    using assms(3,4) by (metis of_int_abs of_int_less_numeral_power_cancel_iff)+
  then have xy: "\<not> overflows (fl (of_int x))" "\<not> overflows (fl (of_int y))"
    by (simp_all add: fl_finite)
  show ?thesis
    by (simp add: draw_icon_def o xy scale_finite [OF assms(2)])
qed

subsection \<open>Icons: stroke widths\<close>

text \<open>Every run of \<open>draw_icon\<close> raises \<open>OverflowError\<close> or makes the calls of \<open>draw_icon_calls\<close>.\<close>

lemma draw_icon_outcome:
  "draw_icon draw x y sz icon_type color opacity h = Inl OverflowError \<or>
   draw_icon draw x y sz icon_type color opacity h =
     Inr (foldl (\<lambda>h c. draw_on draw c h) h (draw_icon_calls x y sz icon_type color opacity))"
  by (simp add: draw_icon_def)

lemma draw_icon_calls_widths:
  "map call_width (draw_icon_calls x y sz icon_type color opacity) =
     (if icon_type = ''chip''
      then replicate 10 (max 1 (py_int (fmul 2 (fdiv (of_int sz) 64))))
      else if icon_type = ''terminal''
      then replicate 3 (max 1 (py_int (fmul 2 (fdiv (of_int sz) 64))))
      else if icon_type = ''wave''
      then replicate 2 (max 1 (py_int (fmul 2 (fdiv (of_int sz) 64))))
      else if icon_type = ''resistor''
      then [max 1 (py_int (fmul 2 (fdiv (of_int sz) 64))),
            max 1 (py_int (fdiv (of_int sz) 64)), max 1 (py_int (fdiv (of_int sz) 64)),
            max 1 (py_int (fdiv (of_int sz) 64)), max 1 (py_int (fdiv (of_int sz) 64)),
            max 1 (py_int (fmul 2 (fdiv (of_int sz) 64))),
            max 1 (py_int (fmul 2 (fdiv (of_int sz) 64)))]
      else [])"
  by (simp add: draw_icon_calls_def Let_def stroke_def band_stroke_def numeral_eq_Suc)

lemma widths_closed:
  fixes sz :: int
  assumes "0 < sz" "sz \<le> 2 ^ 40"
  shows "max 1 (py_int (fmul 2 (fdiv (of_int sz) 64))) = max 1 (sz div 32)"
    and "max 1 (py_int (fdiv (of_int sz) 64)) = max 1 (sz div 64)"
proof -
  have sz0: "0 \<le> sz" using assms by simp
  have sc: "fdiv (of_int sz) 64 = of_int sz / 64" using assms by (intro scale_exact) simp
  show "max 1 (py_int (fmul 2 (fdiv (of_int sz) 64))) = max 1 (sz div 32)"
    using stroke_exact [OF sz0 assms(2)] by (simp only: sc stroke_def)
  show "max 1 (py_int (fdiv (of_int sz) 64)) = max 1 (sz div 64)"
    by (simp only: sc py_int_scaled(1) [OF sz0])
qed

text \<open>
  C9. For every size \<open>> 0\<close>, a call of \<open>draw_icon\<close> draws exactly the calls of
  \<open>draw_icon_calls\<close>, whose stroke widths are, in the order of the calls and with
  \<open>s = size / 64\<close>, \<open>w = max(1, int(2 * s))\<close> and \<open>b = max(1, int(s))\<close>: ten times \<open>w\<close> for the
  chip (two rectangles, eight pins), three times \<open>w\<close> for the terminal, twice \<open>w\<close> for the
  wave, and \<open>w\<close> for the body of the resistor, \<open>b\<close> for each of its four bands and \<open>w\<close> for
  each of its two leads. Both widths are at least 1; up to size \<open>2^40\<close> they are
  \<open>max(1, size div 32)\<close> and \<open>max(1, size div 64)\<close>. The one other outcome is an
  \<open>OverflowError\<close> raised before anything is drawn, and only for an opacity above 1 in
  magnitude, a size of \<open>2^1000\<close> or more, or an anchor of \<open>2^1023\<close> or more in magnitude.
\<close>

theorem stroke_widths:
  fixes x y sz :: int
  assumes "0 < sz"
  shows "case draw_icon draw x y sz icon_type color opacity h of
           Inl e \<Rightarrow>
             e = OverflowError \<and>
             (1 < \<bar>opacity\<bar> \<or> 2 ^ 1000 \<le> sz \<or> 2 ^ 1023 \<le> \<bar>x\<bar> \<or> 2 ^ 1023 \<le> \<bar>y\<bar>)
         | Inr h' \<Rightarrow>
             (let s = fdiv (of_int sz) 64;
                  w = max 1 (py_int (fmul 2 s));
                  b = max 1 (py_int s)
              in h' = foldl (\<lambda>h c. draw_on draw c h) h
                        (draw_icon_calls x y sz icon_type color opacity) \<and>
                 map call_width (draw_icon_calls x y sz icon_type color opacity) =
                   (if icon_type = ''chip'' then replicate 10 w
                    else if icon_type = ''terminal'' then replicate 3 w
                    else if icon_type = ''wave'' then replicate 2 w
                    else if icon_type = ''resistor'' then [w, b, b, b, b, w, w]
                    else []) \<and>
                 1 \<le> w \<and> 1 \<le> b \<and>
                 (sz \<le> 2 ^ 40 \<longrightarrow> w = max 1 (sz div 32) \<and> b = max 1 (sz div 64)))"
proof -
  have c: "sz \<le> 2 ^ 40 \<longrightarrow>
             max 1 (py_int (fmul 2 (fdiv (of_int sz) 64))) = max 1 (sz div 32) \<and>
             max 1 (py_int (fdiv (of_int sz) 64)) = max 1 (sz div 64)"
    using widths_closed [OF assms] by blast
  show ?thesis
    using draw_icon_outcome [of draw x y sz icon_type color opacity h]
  proof
    assume r: "draw_icon draw x y sz icon_type color opacity h = Inl OverflowError"
    have "1 < \<bar>opacity\<bar> \<or> 2 ^ 1000 \<le> sz \<or> 2 ^ 1023 \<le> \<bar>x\<bar> \<or> 2 ^ 1023 \<le> \<bar>y\<bar>"
    proof (rule ccontr)
      assume "\<not> ?thesis"
      then have "\<bar>opacity\<bar> \<le> 1" "\<bar>sz\<bar> < 2 ^ 1000" "\<bar>x\<bar> < 2 ^ 1023" "\<bar>y\<bar> < 2 ^ 1023"
        using assms by simp_all
      then have "draw_icon draw x y sz icon_type color opacity h =
                   Inr (foldl (\<lambda>h c. draw_on draw c h) h
                          (draw_icon_calls x y sz icon_type color opacity))"
        by (rule draw_icon_returns)
      with r show False by simp
    qed
    with r show ?thesis by simp
  next
    assume "draw_icon draw x y sz icon_type color opacity h =
              Inr (foldl (\<lambda>h c. draw_on draw c h) h
                     (draw_icon_calls x y sz icon_type color opacity))"
    then show ?thesis
      using c by (simp only: sum.case Let_def draw_icon_calls_widths) simp
  qed
qed

text \<open>
  The theorem at a resistor of size 128, at the anchor of the fourth icon of
  \<open>icon_positions\<close>: the call returns, the body and the leads have width 4 and the bands
  width 2. At size 1 both \<open>int(2 * s)\<close> and \<open>int(s)\<close> are 0 and every width is 1.
\<close>

theorem stroke_widths_witness:
  "(0 :: int) < 128 \<and> (128 :: int) \<le> 2 ^ 40 \<and>
   draw_icon 0 1050 500 128 ''resistor'' (102, 126, 234) (fl (9 / 100))
     [New ''RGBA'' (1200, 630) [15, 23, 42, 255]] =
       Inr [foldl Drawn (New ''RGBA'' (1200, 630) [15, 23, 42, 255])
              (draw_icon_calls 1050 500 128 ''resistor'' (102, 126, 234) (fl (9 / 100)))] \<and>
   map call_width (draw_icon_calls 1050 500 128 ''resistor'' (102, 126, 234) (fl (9 / 100))) =
     [4, 2, 2, 2, 2, 4, 4] \<and>
   py_int (fmul 2 (fdiv 1 64)) = 0 \<and> py_int (fdiv 1 64) = 0 \<and>
   map call_width (draw_icon_calls 1050 500 1 ''resistor'' (102, 126, 234) (fl (9 / 100))) =
     [1, 1, 1, 1, 1, 1, 1]"
  using stroke_widths [where sz = 128 and draw = 0 and x = 1050 and y = 500
      and icon_type = "''resistor''" and color = "(102, 126, 234)" and opacity = "fl (9 / 100)"
      and h = "[New ''RGBA'' (1200, 630) [15, 23, 42, 255]]"]
  by (simp add: draw_icon_def draw_on_def overflows_def icon_eval prog_eval fl_eval)

subsection \<open>The heap of generate\_banner\<close>

lemma foldl_draw_on:
  "d < length h \<Longrightarrow> foldl (\<lambda>h c. draw_on d c h) h cs = h[d := foldl Drawn (h ! d) cs]"
  by (induction cs arbitrary: h) (simp_all add: draw_on_def)

lemma draw_icon_eq:
  assumes "\<not> overflows (fmul opacity 255)" and "\<not> overflows (fdiv (of_int sz) 64)"
    and "\<not> overflows (fl (of_int x))" and "\<not> overflows (fl (of_int y))"
    and "\<not> overflows (fmul 2 (fdiv (of_int sz) 64))"
    and "d < length h"
  shows "draw_icon d x y sz icon color opacity h =
           Inr (h[d := foldl Drawn (h ! d) (draw_icon_calls x y sz icon color opacity)])"
  using assms by (simp add: draw_icon_def foldl_draw_on)

lemma draw_icons_eq:
  assumes "list_all (\<lambda>(x, y, sz, icon, color, opacity).
              \<not> overflows (fmul opacity 255) \<and> \<not> overflows (fdiv (of_int sz) 64) \<and>
              \<not> overflows (fl (of_int x)) \<and> \<not> overflows (fl (of_int y)) \<and>
              \<not> overflows (fmul 2 (fdiv (of_int sz) 64))) ps"
    and "d < length h"
  shows "draw_icons d ps h =
           Inr (h[d := foldl (\<lambda>im (x, y, sz, icon, color, opacity).
                           foldl Drawn im (draw_icon_calls x y sz icon color opacity)) (h ! d) ps])"
  using assms
proof (induction ps arbitrary: h)
  case Nil
  then show ?case by simp
next
  case (Cons p ps)
  obtain x y sz icon color opacity where p: "p = (x, y, sz, icon, color, opacity)"
    by (cases p) auto
  show ?case
    using Cons.prems
      Cons.IH [of "h[d := foldl Drawn (h ! d) (draw_icon_calls x y sz icon color opacity)]"]
    by (simp add: p draw_icon_eq)
qed

text \<open>None of the eight icons of \<open>icon_positions\<close> overflows: the loop of line 113 returns.\<close>

lemma icon_positions_finite:
  "list_all (\<lambda>(x, y, sz, icon, color, opacity).
      \<not> overflows (fmul opacity 255) \<and> \<not> overflows (fdiv (of_int sz) 64) \<and>
      \<not> overflows (fl (of_int x)) \<and> \<not> overflows (fl (of_int y)) \<and>
      \<not> overflows (fmul 2 (fdiv (of_int sz) 64))) icon_positions"
  by (simp add: icon_positions_def overflows_def prog_eval fl_eval)

lemma draw_icon_positions:
  "d < length h \<Longrightarrow>
   draw_icons d icon_positions h =
     Inr (h[d := foldl (\<lambda>im (x, y, sz, icon, color, opacity).
                     foldl Drawn im (draw_icon_calls x y sz icon color opacity))
                  (h ! d) icon_positions])"
  using icon_positions_finite by (rule draw_icons_eq)

lemma draw_gradient_eq:
  "d < length h \<Longrightarrow> draw_gradient d width height h = h[d := gradient_image width height (h ! d)]"
proof -
  assume d: "d < length h"
  have "draw_gradient d width height h =
          foldl (\<lambda>h c. draw_on d c h) h (map (gradient_line width height \<circ> int) [0..<nat width])"
    by (simp add: draw_gradient_def foldl_map)
  then show ?thesis using d by (simp add: foldl_draw_on gradient_image_def)
qed

lemma generate_banner_eq:
  "generate_banner env =
     (if can_write env
      then Inr \<lparr>path = ''web/static/banner.jpg'',
                pixels = Pasted (New ''RGB'' (1200, 630) [15, 23, 42]) (banner_image env) (0, 0)
                           (banner_image env),
                quality = 95, optimize = True\<rparr>
      else Inl OSError)"
  by (simp add: generate_banner_def Let_def alloc_def draw_gradient_eq draw_icon_positions
        logo_step_def paste_def draw_on_def banner_image_def logo_image_def composite_image_def
        split: sum.split prod.split)

subsection \<open>The written image\<close>

text \<open>
  C6. In every execution path (whatever the logo file, its dimensions and the fonts), the
  image that \<open>generate_banner\<close> writes has size 1200 x 630 and mode RGB, which has no alpha
  channel: it is the banner pasted onto a new RGB image of colour (15, 23, 42). The only
  error is that of \<open>save\<close>.
\<close>

theorem written_image_fixed:
  "case generate_banner env of
     Inr f \<Rightarrow> im_size (pixels f) = (1200, 630) \<and> im_mode (pixels f) = ''RGB'' \<and>
             pixels f = Pasted (New ''RGB'' (1200, 630) [15, 23, 42]) (banner_image env) (0, 0)
                          (banner_image env)
   | Inl e \<Rightarrow> \<not> can_write env"
  by (simp add: generate_banner_eq)

subsection \<open>An icon type outside the enumeration\<close>

text \<open>
  C8, as the code has it. For every icon type other than chip, terminal, wave and
  resistor, \<open>draw_icon\<close> makes no draw call. Lines 13 and 17 run all the same: the call
  raises \<open>OverflowError\<close> when \<open>opacity * 255\<close> or \<open>size / 64\<close> overflows, and otherwise it
  returns and leaves every image of the heap as it is. It returns for every opacity of
  magnitude up to 1 and every size of magnitude below \<open>2^1029\<close>.
\<close>

theorem unknown_icon_type_outcome:
  assumes "icon_type \<notin> {''chip'', ''terminal'', ''wave'', ''resistor''}"
  shows "draw_icon_calls x y sz icon_type color opacity = [] \<and>
         draw_icon draw x y sz icon_type color opacity h =
           (if overflows (fmul opacity 255) \<or> overflows (fdiv (of_int sz) 64)
            then Inl OverflowError else Inr h) \<and>
         (\<bar>opacity\<bar> \<le> 1 \<and> \<bar>sz\<bar> < 2 ^ 1029 \<longrightarrow>
            draw_icon draw x y sz icon_type color opacity h = Inr h)"
proof -
  have c: "draw_icon_calls x y sz icon_type color opacity = []"
    using assms by (simp add: draw_icon_calls_def Let_def)
  have d: "draw_icon draw x y sz icon_type color opacity h =
             (if overflows (fmul opacity 255) \<or> overflows (fdiv (of_int sz) 64)
              then Inl OverflowError else Inr h)"
    using assms by (simp add: draw_icon_def c)
  have "\<not> overflows (fmul opacity 255)" if "\<bar>opacity\<bar> \<le> 1"
  proof -
    have "\<bar>opacity * 255\<bar> \<le> 255" using that by (simp add: abs_mult)
    then have "\<bar>opacity * 255\<bar> < 2 ^ 1023" by simp
    then show ?thesis unfolding fmul_def by (rule fl_finite)
  qed
  moreover have "\<not> overflows (fdiv (of_int sz) 64)" if "\<bar>sz\<bar> < 2 ^ 1029"
  proof -
    have "\<bar>of_int sz :: rat\<bar> < 2 ^ 1029"
      using that by (metis of_int_abs of_int_less_numeral_power_cancel_iff)
    then have "\<bar>of_int sz / 64 :: rat\<bar> < 2 ^ 1023" by simp
    then show ?thesis unfolding fdiv_def by (rule fl_finite)
  qed
  ultimately show ?thesis using c d by simp
qed

text \<open>The theorem at the icon type \<open>led\<close>, with the size and the opacity of the first icon.\<close>

theorem unknown_icon_type_outcome_witness:
  "''led'' \<notin> {''chip'', ''terminal'', ''wave'', ''resistor''} \<and>
   \<not> overflows (fmul (fl (8 / 100)) 255) \<and> \<not> overflows (fdiv 48 64) \<and>
   draw_icon_calls 80 80 48 ''led'' (102, 126, 234) (fl (8 / 100)) = [] \<and>
   draw_icon 0 80 80 48 ''led'' (102, 126, 234) (fl (8 / 100))
     [New ''RGBA'' (1200, 630) [15, 23, 42, 255]] =
       Inr [New ''RGBA'' (1200, 630) [15, 23, 42, 255]]"
  using unknown_icon_type_outcome [of "''led''" 80 80 48 "(102, 126, 234)" "fl (8 / 100)" 0
      "[New ''RGBA'' (1200, 630) [15, 23, 42, 255]]"]
  by (simp add: overflows_def prog_eval fl_eval)

text \<open>
  C8, as it is stated, fails at size \<open>2^1030\<close>: the quotient \<open>2^1030 / 64 = 2^1024\<close> of
  line 17 is beyond the largest double, and the call raises \<open>OverflowError\<close>.
\<close>

theorem unknown_icon_type_raises:
  "''led'' \<notin> {''chip'', ''terminal'', ''wave'', ''resistor''} \<and>
   draw_icon 0 80 80 (2 ^ 1030) ''led'' (102, 126, 234) (fl (8 / 100))
     [New ''RGBA'' (1200, 630) [15, 23, 42, 255]] = Inl OverflowError"
  by (simp add: draw_icon_def overflows_def prog_eval fl_eval)

subsection \<open>The fallback logo mark\<close>

lemma texts_of_lines:
  "texts_of (foldl Drawn im (map (gradient_line width height \<circ> int) ns)) = texts_of im"
  by (induction ns arbitrary: im) (simp_all add: gradient_line_def)

lemma texts_of_composite: "texts_of composite_image = []"
  by (simp add: composite_image_def gradient_image_def texts_of_lines)

text \<open>
  C5. When the logo cannot be loaded and the bold font can, the logo step draws \<open>JW\<close> on
  \<open>draw\<close>, the handle of the image of line 70; the file is written, and the only strings drawn
  on the written image are the three lines of text: the mark is not on it, because the
  written image is built from the image that line 97 created.
\<close>

theorem fallback_mark_not_written:
  assumes "logo_file env = Inl e" and "font_files env bold_ttf" and "can_write env"
  shows "logo_step env draw img height h =
           draw_on draw (Text (100, 250) ''JW'' (TrueType bold_ttf 140) (14, 165, 233, 255)) h \<and>
         (\<exists>f. generate_banner env = Inr f \<and>
              texts_of (pixels f) =
                [''Josh Wentworth'', ''Multidisciplinary Engineer'', subtitle])"
  using assms
  by (simp add: logo_step_def load_logo_def truetype_def generate_banner_eq banner_image_def
        logo_image_def texts_of_composite split: prod.split)

text \<open>The theorem with the logo file missing and every font present.\<close>

theorem fallback_mark_not_written_witness:
  "logo_step \<lparr>logo_file = Inl FileNotFoundError, font_files = (\<lambda>f. True), can_write = True,
              random_state = []\<rparr> 0 2 630 [composite_image, composite_image, composite_image] =
     [Drawn composite_image (Text (100, 250) ''JW'' (TrueType bold_ttf 140) (14, 165, 233, 255)),
      composite_image, composite_image] \<and>
   (\<exists>f. generate_banner \<lparr>logo_file = Inl FileNotFoundError, font_files = (\<lambda>f. True),
                          can_write = True, random_state = []\<rparr> = Inr f \<and>
        texts_of (pixels f) = [''Josh Wentworth'', ''Multidisciplinary Engineer'', subtitle])"
  using fallback_mark_not_written
    [of "\<lparr>logo_file = Inl FileNotFoundError, font_files = (\<lambda>f. True), can_write = True,
          random_state = []\<rparr>" FileNotFoundError 0 2 630
        "[composite_image, composite_image, composite_image]"]
  by (simp add: draw_on_def)

end
